theory Spec2Isabelle
  imports Complex_Main "HOL-Library.Multiset"
begin

section \<open>The incense session timer (src/incense-timer/src/app/page.tsx)\<close>

text \<open>
  A shallow embedding of the timer page: the daily quote selector, the session
  record builder, the history store functions and the timer's event handlers.
  The numbers the page itself computes with (seconds, millisecond timestamps,
  the parts of a date) are modelled as \<open>int\<close>: they are integers far below
  \<open>2^53\<close>, where double arithmetic is exact; where such a number may be \<open>NaN\<close>
  it is an \<open>option\<close>, with \<open>None\<close> for \<open>NaN\<close>. The numbers inside stored and
  loaded values are not under the page's control; they are of the type
  \<open>number\<close>, which has the finite numbers, both infinities and \<open>NaN\<close>. A value
  that may be \<open>undefined\<close> is an \<open>option\<close>, with \<open>None\<close> for \<open>undefined\<close>.
\<close>

subsection \<open>Numbers as text\<close>

definition digit_char :: "nat \<Rightarrow> char" where
  "digit_char n = char_of (48 + n)"

fun digits :: "nat \<Rightarrow> string" where
  "digits n = (if n < 10 then [digit_char n] else digits (n div 10) @ [digit_char (n mod 10)])"

declare digits.simps [simp del]

text \<open>
  Number-to-string conversion of an integer, as the template literal
  \<^verbatim>\<open>`${endedAt}`\<close> and \<^verbatim>\<open>toString()\<close> perform it (decimal digits, a minus sign
  for a negative number; the runtime switches to exponent notation only from
  \<open>10^21\<close> on, far above any timestamp).
\<close>

definition numToString :: "int \<Rightarrow> string" where
  "numToString n = (if n < 0 then CHR ''-'' # digits (nat (- n)) else digits (nat n))"

text \<open>\<^verbatim>\<open>s.padStart(n, "0")\<close>.\<close>

definition padStart0 :: "nat \<Rightarrow> string \<Rightarrow> string" where
  "padStart0 n s = replicate (n - length s) CHR ''0'' @ s"

subsection \<open>The runtime's date: \<^verbatim>\<open>new Date().toISOString()\<close>\<close>

text \<open>
  A \<^verbatim>\<open>Date\<close> is its time value \<open>t\<close>, the milliseconds since 1970-01-01T00:00:00Z.
  The functions below follow the language standard's date algorithms (Day,
  DayFromYear, YearFromTime, InLeapYear, MonthFromTime, DateFromTime), all of
  them in UTC. \<open>LocalTime\<close> is the standard's shift by the local time zone
  adjustment \<open>tza\<close> (milliseconds east of UTC).
\<close>

definition msPerDay :: int where
  "msPerDay = 86400000"

definition Day :: "int \<Rightarrow> int" where
  "Day t = t div msPerDay"

definition TimeWithinDay :: "int \<Rightarrow> int" where
  "TimeWithinDay t = t mod msPerDay"

definition LocalTime :: "int \<Rightarrow> int \<Rightarrow> int" where
  "LocalTime tza t = t + tza"

definition DaysInYear :: "int \<Rightarrow> int" where
  "DaysInYear y =
     (if y mod 4 \<noteq> 0 then 365 else if y mod 100 \<noteq> 0 then 366
      else if y mod 400 \<noteq> 0 then 365 else 366)"

definition DayFromYear :: "int \<Rightarrow> int" where
  "DayFromYear y =
     365 * (y - 1970) + (y - 1969) div 4 - (y - 1901) div 100 + (y - 1601) div 400"

text \<open>
  The standard defines YearFromTime as the largest \<open>y\<close> with
  \<open>DayFromYear y \<le> Day t\<close>; it is computed here from an estimate that is off by
  at most one year (lemmas \<open>YearFromTime_spec\<close> and \<open>YearFromTime_largest\<close>
  below).
\<close>

definition YearFromTime :: "int \<Rightarrow> int" where
  "YearFromTime t =
     (let d = Day t; y = 1970 + (400 * d) div 146097
      in if d < DayFromYear y then y - 1
         else if DayFromYear (y + 1) \<le> d then y + 1 else y)"

definition DayWithinYear :: "int \<Rightarrow> int" where
  "DayWithinYear t = Day t - DayFromYear (YearFromTime t)"

definition InLeapYear :: "int \<Rightarrow> int" where
  "InLeapYear t = (if DaysInYear (YearFromTime t) = 366 then 1 else 0)"

text \<open>The month number, 0 for January, as the standard has it.\<close>

definition MonthFromTime :: "int \<Rightarrow> int" where
  "MonthFromTime t =
     (let d = DayWithinYear t; l = InLeapYear t
      in if d < 31 then 0
         else if d < 59 + l then 1
         else if d < 90 + l then 2
         else if d < 120 + l then 3
         else if d < 151 + l then 4
         else if d < 181 + l then 5
         else if d < 212 + l then 6
         else if d < 243 + l then 7
         else if d < 273 + l then 8
         else if d < 304 + l then 9
         else if d < 334 + l then 10
         else 11)"

definition DateFromTime :: "int \<Rightarrow> int" where
  "DateFromTime t =
     (let d = DayWithinYear t; l = InLeapYear t; m = MonthFromTime t
      in if m = 0 then d + 1
         else if m = 1 then d - 30
         else if m = 2 then d - 58 - l
         else if m = 3 then d - 89 - l
         else if m = 4 then d - 119 - l
         else if m = 5 then d - 150 - l
         else if m = 6 then d - 180 - l
         else if m = 7 then d - 211 - l
         else if m = 8 then d - 242 - l
         else if m = 9 then d - 272 - l
         else if m = 10 then d - 303 - l
         else d - 333 - l)"

text \<open>
  The year of an ISO string: four digits for the years 0 to 9999, otherwise a
  sign and six digits.
\<close>

definition isoYear :: "int \<Rightarrow> string" where
  "isoYear y =
     (if 0 \<le> y \<and> y \<le> 9999 then padStart0 4 (digits (nat y))
      else (if y < 0 then CHR ''-'' else CHR ''+'') # padStart0 6 (digits (nat \<bar>y\<bar>)))"

definition isoDate :: "int \<Rightarrow> string" where
  "isoDate t =
     isoYear (YearFromTime t) @ ''-'' @ padStart0 2 (digits (nat (MonthFromTime t + 1)))
       @ ''-'' @ padStart0 2 (digits (nat (DateFromTime t)))"

definition isoTime :: "int \<Rightarrow> string" where
  "isoTime t =
     (let ms = TimeWithinDay t
      in padStart0 2 (digits (nat (ms div 3600000))) @ '':''
         @ padStart0 2 (digits (nat (ms div 60000 mod 60))) @ '':''
         @ padStart0 2 (digits (nat (ms div 1000 mod 60))) @ ''.''
         @ padStart0 3 (digits (nat (ms mod 1000))))"

definition toISOString :: "int \<Rightarrow> string" where
  "toISOString t = isoDate t @ ''T'' @ isoTime t @ ''Z''"

subsection \<open>String functions of the selector\<close>

text \<open>\<^verbatim>\<open>s.slice(0, n)\<close> for \<open>0 \<le> n\<close>.\<close>

definition slice0 :: "nat \<Rightarrow> string \<Rightarrow> string" where
  "slice0 n s = take n s"

text \<open>\<^verbatim>\<open>s.split(c)\<close> for a separator of one character.\<close>

fun split :: "char \<Rightarrow> string \<Rightarrow> string list" where
  "split c [] = [[]]"
| "split c (x # xs) =
     (if x = c then [] # split c xs
      else (case split c xs of [] \<Rightarrow> [[x]] | p # ps \<Rightarrow> (x # p) # ps))"

definition is_digit :: "char \<Rightarrow> bool" where
  "is_digit c = (48 \<le> (of_char c :: nat) \<and> (of_char c :: nat) \<le> 57)"

definition is_space :: "char \<Rightarrow> bool" where
  "is_space c = (c \<in> set [CHR '' '', CHR 0x09, CHR 0x0A, CHR 0x0B, CHR 0x0C, CHR 0x0D])"

definition digit_val :: "char \<Rightarrow> int" where
  "digit_val c = int (of_char c) - 48"

definition digits_val :: "string \<Rightarrow> int" where
  "digits_val s = foldl (\<lambda>acc c. 10 * acc + digit_val c) 0 s"

text \<open>
  \<^verbatim>\<open>parseInt(s, 10)\<close>: leading white space is skipped, one sign is read, then the
  longest run of decimal digits; with no digit the result is \<open>NaN\<close>.
\<close>

definition parseInt10 :: "string \<Rightarrow> int option" where
  "parseInt10 s =
     (let s1 = dropWhile is_space s;
          neg = (case s1 of [] \<Rightarrow> False | c # _ \<Rightarrow> c = CHR ''-'');
          s2 = (case s1 of [] \<Rightarrow> [] | c # cs \<Rightarrow> if c = CHR ''-'' \<or> c = CHR ''+'' then cs else s1);
          ds = takeWhile is_digit s2
      in if ds = [] then None
         else Some (if neg then - digits_val ds else digits_val ds))"

text \<open>Addition and remainder on numbers that may be \<open>NaN\<close>.\<close>

definition num_add :: "int option \<Rightarrow> int option \<Rightarrow> int option" where
  "num_add a b = (case (a, b) of (Some x, Some y) \<Rightarrow> Some (x + y) | _ \<Rightarrow> None)"

text \<open>\<^verbatim>\<open>a % n\<close>: the remainder has the sign of the dividend; \<open>NaN\<close> for \<open>n = 0\<close>.\<close>

definition num_rem :: "int option \<Rightarrow> int \<Rightarrow> int option" where
  "num_rem a n =
     (case a of None \<Rightarrow> None
      | Some x \<Rightarrow> if n = 0 then None
                  else Some (if x < 0 then - ((- x) mod \<bar>n\<bar>) else x mod \<bar>n\<bar>))"

text \<open>\<^verbatim>\<open>xs[i]\<close>: \<open>undefined\<close> when \<open>i\<close> is \<open>NaN\<close> or no index of the array.\<close>

definition index :: "'a list \<Rightarrow> int option \<Rightarrow> 'a option" where
  "index xs i =
     (case i of None \<Rightarrow> None
      | Some k \<Rightarrow> if 0 \<le> k \<and> k < int (length xs) then Some (xs ! nat k) else None)"

subsection \<open>The daily quote\<close>

record QuoteEntry =
  "text" :: string
  author :: string

text \<open>
  The right single quotation mark of the fifth entry (U+2019) is written as its
  three UTF-8 bytes.
\<close>

definition QUOTES :: "QuoteEntry list" where
  "QUOTES =
     [\<lparr>text = ''Wherever you are, be all there.'', author = ''Jim Elliot''\<rparr>,
      \<lparr>text = ''The fragrance of flowers spreads only in the direction of the wind. But the goodness of a person spreads in all directions.'',
        author = ''Chanakya''\<rparr>,
      \<lparr>text = ''Each moment is all we need, not more.'', author = ''Mother Teresa''\<rparr>,
      \<lparr>text = ''One incense stick can change the air of a room. One focused session can transform a day.'',
        author = ''Unknown''\<rparr>,
      \<lparr>text = ''Silence isn'' @ [CHR 0xE2, CHR 0x80, CHR 0x99] @ ''t empty, it''
                @ [CHR 0xE2, CHR 0x80, CHR 0x99] @ ''s full of answers.'',
        author = ''Zen Proverb''\<rparr>,
      \<lparr>text = ''Simplicity is the keynote of all true elegance.'', author = ''Coco Chanel''\<rparr>]"

text \<open>
  \<open>todaysQuote\<close>, the body of the memo at lines 156-160, with the time value of
  \<^verbatim>\<open>new Date()\<close> as its argument.
\<close>

definition dayIndex :: "int \<Rightarrow> string" where
  "dayIndex t = slice0 10 (toISOString t)"

definition hash :: "int \<Rightarrow> int option" where
  "hash t = foldl (\<lambda>acc part. num_add acc (parseInt10 part)) (Some 0) (split CHR ''-'' (dayIndex t))"

definition todaysQuote :: "int \<Rightarrow> QuoteEntry option" where
  "todaysQuote t = index QUOTES (num_rem (hash t) (int (length QUOTES)))"

subsection \<open>Values of the runtime\<close>

text \<open>
  A number of the runtime: a finite number (as an exact rational; the rounding
  of doubles and the sign of zero are not modelled), an infinity, or \<open>NaN\<close>. The comparison \<^verbatim>\<open><=\<close> is
  false whenever an operand is \<open>NaN\<close>; the difference of two equal infinities
  is \<open>NaN\<close>.
\<close>

datatype number = Finite rat | PosInf | NegInf | NaN

instantiation number :: ord
begin

fun less_eq_number :: "number \<Rightarrow> number \<Rightarrow> bool" where
  "less_eq_number NaN y = False"
| "less_eq_number x NaN = False"
| "less_eq_number NegInf y = True"
| "less_eq_number x PosInf = True"
| "less_eq_number (Finite a) (Finite b) = (a \<le> b)"
| "less_eq_number x y = False"

definition less_number :: "number \<Rightarrow> number \<Rightarrow> bool" where
  "less_number x y = (x \<le> y \<and> \<not> y \<le> x)"

instance ..

end

fun num_sub :: "number \<Rightarrow> number \<Rightarrow> number" where
  "num_sub NaN y = NaN"
| "num_sub x NaN = NaN"
| "num_sub (Finite a) (Finite b) = Finite (a - b)"
| "num_sub PosInf PosInf = NaN"
| "num_sub NegInf NegInf = NaN"
| "num_sub PosInf y = PosInf"
| "num_sub NegInf y = NegInf"
| "num_sub (Finite a) PosInf = NegInf"
| "num_sub (Finite a) NegInf = PosInf"

text \<open>
  The values the page stores and loads. An object is the list of its
  properties in enumeration order; a property read takes the first binding of
  the name.
\<close>

datatype jsval =
  JNull | JBool bool | JNum number | JStr string | JArr "jsval list"
  | JObj "(string \<times> jsval) list"

datatype error = SyntaxError | TypeError

text \<open>
  The property read \<^verbatim>\<open>v.name\<close>, for a name that no prototype defines (the
  names this page reads are \<^verbatim>\<open>id\<close>, \<^verbatim>\<open>startedAt\<close>, \<^verbatim>\<open>endedAt\<close> and
  \<^verbatim>\<open>duration\<close>): reading a property of \<^verbatim>\<open>null\<close> throws a TypeError, an
  object answers with its own property or \<open>undefined\<close>, every other value with
  \<open>undefined\<close>.
\<close>

fun get :: "jsval \<Rightarrow> string \<Rightarrow> error + jsval option" where
  "get JNull name = Inl TypeError"
| "get (JObj props) name = Inr (map_of props name)"
| "get v name = Inr None"

text \<open>\<^verbatim>\<open>typeof v === "number"\<close>, for a value that may be \<open>undefined\<close>.\<close>

fun is_number :: "jsval option \<Rightarrow> bool" where
  "is_number (Some (JNum n)) = True"
| "is_number v = False"

subsection \<open>Session records\<close>

text \<open>
  The object literal of the interface \<^verbatim>\<open>SessionRecord\<close>, its properties in the
  order the source writes them.
\<close>

definition SessionRecord :: "string \<Rightarrow> number \<Rightarrow> number \<Rightarrow> number \<Rightarrow> jsval" where
  "SessionRecord i s e d =
     JObj [(''id'', JStr i), (''startedAt'', JNum s), (''endedAt'', JNum e), (''duration'', JNum d)]"

text \<open>
  \<open>buildSessionRecord\<close> (lines 55-63); \<open>now\<close> is the value \<^verbatim>\<open>Date.now()\<close> returns
  at the call, an integer, as is the duration the timer passes.
\<close>

definition buildSessionRecord :: "int \<Rightarrow> int \<Rightarrow> jsval" where
  "buildSessionRecord now durationInSeconds =
     (let endedAt = now
      in SessionRecord (numToString endedAt)
           (Finite (of_int (endedAt - durationInSeconds * 1000)))
           (Finite (of_int endedAt))
           (Finite (of_int durationInSeconds)))"

text \<open>Reading a numeric or a string property of an entry, for stating properties.\<close>

definition num_prop :: "jsval \<Rightarrow> string \<Rightarrow> number option" where
  "num_prop v name = (case get v name of Inr (Some (JNum n)) \<Rightarrow> Some n | _ \<Rightarrow> None)"


subsection \<open>The history store\<close>

text \<open>
  \<^verbatim>\<open>window.localStorage\<close> maps keys to strings. A stored string is represented
  by what \<^verbatim>\<open>JSON.parse\<close> makes of it: the empty string (which the source tests
  for before parsing), a text that \<^verbatim>\<open>JSON.parse\<close> rejects, or a text that
  parses to a value \<open>v\<close>, written \<open>Serialized v\<close>. A text can parse to an infinity
  (\<^verbatim>\<open>1e999\<close>) but never to \<open>NaN\<close>: a \<open>Serialized v\<close> with a \<open>NaN\<close> inside \<open>v\<close>
  stands for no text and is answered like a rejected text. The storage is
  taken to be accessible: \<^verbatim>\<open>getItem\<close> and \<^verbatim>\<open>setItem\<close> themselves do not throw.
  \<^verbatim>\<open>typeof window === "undefined"\<close> is the window \<open>None\<close>.
\<close>

datatype raw = EmptyString | Unparseable | Serialized jsval

primrec nan_free :: "jsval \<Rightarrow> bool" where
  "nan_free JNull = True"
| "nan_free (JBool b) = True"
| "nan_free (JNum n) = (n \<noteq> NaN)"
| "nan_free (JStr x) = True"
| "nan_free (JArr xs) = list_all nan_free xs"
| "nan_free (JObj props) = list_all (pred_prod (\<lambda>name. True) nan_free) props"

text \<open>
  What \<^verbatim>\<open>JSON.stringify\<close> writes for a value is what the written text parses
  to: the value itself, but with \<^verbatim>\<open>null\<close> in the place of every number that is
  not finite, since \<^verbatim>\<open>JSON.stringify\<close> writes \<open>NaN\<close> and the infinities as
  \<^verbatim>\<open>null\<close>. That a finite number, a string, a boolean and \<^verbatim>\<open>null\<close> are read
  back as written is a property of the runtime and is built into this
  representation.
\<close>

primrec written :: "jsval \<Rightarrow> jsval" where
  "written JNull = JNull"
| "written (JBool b) = JBool b"
| "written (JNum n) = (case n of Finite q \<Rightarrow> JNum n | _ \<Rightarrow> JNull)"
| "written (JStr x) = JStr x"
| "written (JArr xs) = JArr (map written xs)"
| "written (JObj props) = JObj (map (map_prod id written) props)"

type_synonym Storage = "string \<rightharpoonup> raw"

type_synonym Window = "Storage option"

definition STORAGE_KEY :: string where
  "STORAGE_KEY = ''kodou-timer-history-v1''"

definition DEFAULT_DURATION :: int where
  "DEFAULT_DURATION = 25 * 60"

fun JSON_parse :: "raw \<Rightarrow> error + jsval" where
  "JSON_parse (Serialized v) = (if nan_free v then Inr v else Inl SyntaxError)"
| "JSON_parse r = Inl SyntaxError"

definition JSON_stringify :: "jsval \<Rightarrow> raw" where
  "JSON_stringify v = Serialized (written v)"

text \<open>
  The callback of \<^verbatim>\<open>filter\<close> at line 72. \<^verbatim>\<open>&&\<close> does not evaluate its second
  operand when the first is false.
\<close>

definition valid_entry :: "jsval \<Rightarrow> error + bool" where
  "valid_entry entry =
     (case get entry ''endedAt'' of
        Inl e \<Rightarrow> Inl e
      | Inr a \<Rightarrow>
          if is_number a
          then (case get entry ''duration'' of Inl e \<Rightarrow> Inl e | Inr d \<Rightarrow> Inr (is_number d))
          else Inr False)"

text \<open>
  \<^verbatim>\<open>xs.filter(f)\<close> with a callback that may throw: the entries are visited in
  order and the first exception ends the call.
\<close>

fun filter_list :: "('a \<Rightarrow> error + bool) \<Rightarrow> 'a list \<Rightarrow> error + 'a list" where
  "filter_list f [] = Inr []"
| "filter_list f (x # xs) =
     (case f x of
        Inl e \<Rightarrow> Inl e
      | Inr keep \<Rightarrow>
          (case filter_list f xs of
             Inl e \<Rightarrow> Inl e
           | Inr r \<Rightarrow> Inr (if keep then x # r else r)))"

text \<open>
  \<^verbatim>\<open>parsed.filter(f)\<close> on a parsed value: only an array has the method; on
  \<^verbatim>\<open>null\<close> the property read throws, on any other value the call of
  \<open>undefined\<close> throws, a TypeError both times.
\<close>

fun array_filter :: "(jsval \<Rightarrow> error + bool) \<Rightarrow> jsval \<Rightarrow> error + jsval list" where
  "array_filter f (JArr xs) = filter_list f xs"
| "array_filter f v = Inl TypeError"

text \<open>
  The comparator of \<^verbatim>\<open>sort\<close> at line 73, \<^verbatim>\<open>(a, b) => b.endedAt - a.endedAt\<close>.
  It is only called on entries that passed the filter, whose \<^verbatim>\<open>endedAt\<close> is a
  number; for any other operand the result is given as \<open>NaN\<close>.
\<close>

definition by_endedAt :: "jsval \<Rightarrow> jsval \<Rightarrow> number" where
  "by_endedAt a b =
     (case (num_prop b ''endedAt'', num_prop a ''endedAt'') of
        (Some y, Some x) \<Rightarrow> num_sub y x
      | _ \<Rightarrow> NaN)"

text \<open>
  \<^verbatim>\<open>xs.sort(cmp)\<close>: the sort is stable, and \<open>a\<close> stays before \<open>b\<close> unless
  \<open>cmp a b > 0\<close> (a comparator result \<open>NaN\<close> counts as 0). For a consistent
  comparator the result does not depend on the sorting algorithm; it is
  computed here by insertion from the right.
\<close>

fun keeps_order :: "number \<Rightarrow> bool" where
  "keeps_order (Finite c) = (c \<le> 0)"
| "keeps_order PosInf = False"
| "keeps_order c = True"

fun insert_by :: "('a \<Rightarrow> 'a \<Rightarrow> number) \<Rightarrow> 'a \<Rightarrow> 'a list \<Rightarrow> 'a list" where
  "insert_by cmp x [] = [x]"
| "insert_by cmp x (y # ys) =
     (if keeps_order (cmp x y) then x # y # ys else y # insert_by cmp x ys)"

fun sort_by :: "('a \<Rightarrow> 'a \<Rightarrow> number) \<Rightarrow> 'a list \<Rightarrow> 'a list" where
  "sort_by cmp [] = []"
| "sort_by cmp (x # xs) = insert_by cmp x (sort_by cmp xs)"

text \<open>
  \<open>loadHistory\<close> (lines 65-78). The body of \<^verbatim>\<open>try\<close> is \<open>loadHistory_try\<close>; the
  result of \<open>loadHistory\<close> is the returned array and the lines written by
  \<^verbatim>\<open>console.error\<close>.
\<close>

definition loadHistory_try :: "Storage \<Rightarrow> error + jsval list" where
  "loadHistory_try localStorage =
     (case localStorage STORAGE_KEY of
        None \<Rightarrow> Inr []
      | Some r \<Rightarrow>
          if r = EmptyString then Inr []
          else (case JSON_parse r of
                  Inl e \<Rightarrow> Inl e
                | Inr parsed \<Rightarrow>
                    (case array_filter valid_entry parsed of
                       Inl e \<Rightarrow> Inl e
                     | Inr kept \<Rightarrow> Inr (sort_by by_endedAt kept))))"

definition loadHistory :: "Window \<Rightarrow> jsval list \<times> string list" where
  "loadHistory window =
     (case window of
        None \<Rightarrow> ([], [])
      | Some localStorage \<Rightarrow>
          (case loadHistory_try localStorage of
             Inl e \<Rightarrow> ([], [''Failed to parse history''])
           | Inr h \<Rightarrow> (h, [])))"

text \<open>\<open>persistHistory\<close> (lines 80-83).\<close>

definition persistHistory :: "jsval list \<Rightarrow> Window \<Rightarrow> Window" where
  "persistHistory history window =
     (case window of
        None \<Rightarrow> None
      | Some localStorage \<Rightarrow> Some (localStorage(STORAGE_KEY \<mapsto> JSON_stringify (JArr history))))"

subsection \<open>The chime\<close>

text \<open>
  \<open>useBellChime\<close> (lines 85-114). The audio calls in the body of \<^verbatim>\<open>try\<close> either
  all succeed or one of them throws, depending on the platform's audio
  facility (\<open>audio\<close>: whether it works). \<open>trigger\<close> catches the exception and
  writes a line with \<^verbatim>\<open>console.error\<close>; its result is the lines written.
\<close>

definition play :: "bool \<Rightarrow> error + unit" where
  "play audio = (if audio then Inr () else Inl TypeError)"

definition trigger :: "bool \<Rightarrow> string list" where
  "trigger audio = (case play audio of Inl e \<Rightarrow> [''Failed to play chime''] | Inr u \<Rightarrow> [])"

subsection \<open>The timer component\<close>

text \<open>
  The state of \<open>Home\<close>: its four state variables, and the parts of the
  environment its handlers act on: the window with its storage, the lines
  written to the console, and the number of calls of \<open>chime\<close>. State updater
  functions are run once per update.
\<close>

record Home =
  totalDuration :: int
  remaining :: int
  isRunning :: bool
  history :: "jsval list"
  window :: Window
  console :: "string list"
  chimes :: nat

definition initial :: "Window \<Rightarrow> Home" where
  "initial w =
     \<lparr>totalDuration = DEFAULT_DURATION, remaining = DEFAULT_DURATION, isRunning = False,
      history = [], window = w, console = [], chimes = 0\<rparr>"

text \<open>The effect on \<^verbatim>\<open>[history]\<close> (lines 127-129), run after a render with a new history.\<close>

definition historyEffect :: "Home \<Rightarrow> Home" where
  "historyEffect s = s\<lparr>window := persistHistory (history s) (window s)\<rparr>"

text \<open>
  Mounting the component: the first effect (lines 123-125) loads the history
  and schedules the update, the second effect persists the history of the
  first render, and the render with the loaded history runs the second effect
  again.
\<close>

definition mount :: "Home \<Rightarrow> Home" where
  "mount s =
     (let loaded = loadHistory (window s);
          s1 = historyEffect s
      in historyEffect (s1\<lparr>history := fst loaded, console := console s1 @ snd loaded\<rparr>))"

definition handleStart :: "Home \<Rightarrow> Home" where
  "handleStart s =
     (let s1 = (if remaining s \<le> 0 then s\<lparr>remaining := totalDuration s\<rparr> else s)
      in s1\<lparr>isRunning := True\<rparr>)"

definition handlePause :: "Home \<Rightarrow> Home" where
  "handlePause s = s\<lparr>isRunning := False\<rparr>"

definition handleReset :: "Home \<Rightarrow> Home" where
  "handleReset s = s\<lparr>isRunning := False, remaining := totalDuration s\<rparr>"

definition handleDurationChange :: "int \<Rightarrow> Home \<Rightarrow> Home" where
  "handleDurationChange v s = s\<lparr>totalDuration := v, remaining := v, isRunning := False\<rparr>"

text \<open>
  The completion branch of the interval callback (lines 137-145): the interval
  is cleared, the run stops, the record is prepended and the history cut to
  20 entries and persisted, the chime is called, and \<open>remaining\<close> becomes 0.
\<close>

definition complete :: "int \<Rightarrow> bool \<Rightarrow> Home \<Rightarrow> Home" where
  "complete now audio s =
     (let nextHistory = take 20 (buildSessionRecord now (totalDuration s) # history s)
      in s\<lparr>isRunning := False,
            history := nextHistory,
            window := persistHistory nextHistory (window s),
            chimes := Suc (chimes s),
            console := console s @ trigger audio,
            remaining := 0\<rparr>)"

text \<open>
  One firing of the interval (lines 134-149). The interval exists only while
  \<open>isRunning\<close> holds, so in any other state nothing happens. \<open>now\<close> is the
  clock's reading and \<open>audio\<close> tells whether the audio facility works at this
  firing. After a completion the history has changed and its effect runs.
\<close>

definition tick :: "int \<Rightarrow> bool \<Rightarrow> Home \<Rightarrow> Home" where
  "tick now audio s =
     (if \<not> isRunning s then s
      else if remaining s \<le> 1 then historyEffect (complete now audio s)
      else s\<lparr>remaining := remaining s - 1\<rparr>)"

text \<open>The events of the timer, and runs of events.\<close>

datatype event = Start | Pause | Reset | SetDuration int | Tick int bool

fun step :: "event \<Rightarrow> Home \<Rightarrow> Home" where
  "step Start s = handleStart s"
| "step Pause s = handlePause s"
| "step Reset s = handleReset s"
| "step (SetDuration v) s = handleDurationChange v s"
| "step (Tick now audio) s = tick now audio s"

fun run :: "event list \<Rightarrow> Home \<Rightarrow> Home" where
  "run [] s = s"
| "run (e # es) s = run es (step e s)"

text \<open>A number of interval firings in a row, each with its clock reading and audio state.\<close>

fun ticks :: "(int \<times> bool) list \<Rightarrow> Home \<Rightarrow> Home" where
  "ticks [] s = s"
| "ticks ((now, audio) # rest) s = ticks rest (tick now audio s)"

text \<open>
  An event completes a session when it is a firing of the interval in a
  running state with at most one second left; \<open>completions\<close> lists the records
  a run builds, oldest first.
\<close>

fun completes :: "event \<Rightarrow> Home \<Rightarrow> bool" where
  "completes (Tick now audio) s = (isRunning s \<and> remaining s \<le> 1)"
| "completes e s = False"

fun built :: "event \<Rightarrow> Home \<Rightarrow> jsval list" where
  "built (Tick now audio) s =
     (if isRunning s \<and> remaining s \<le> 1 then [buildSessionRecord now (totalDuration s)] else [])"
| "built e s = []"

fun completions :: "event list \<Rightarrow> Home \<Rightarrow> jsval list" where
  "completions [] s = []"
| "completions (e # es) s = built e s @ completions es (step e s)"

text \<open>
  An example run: 21 sessions of one second each, every one started and then
  completed by one firing of the interval, a second apart.
\<close>

definition example_run :: "event list" where
  "example_run =
     [Start, Tick 1715122801000 True,
      Start, Tick 1715122802000 True,
      Start, Tick 1715122803000 True,
      Start, Tick 1715122804000 True,
      Start, Tick 1715122805000 True,
      Start, Tick 1715122806000 True,
      Start, Tick 1715122807000 True,
      Start, Tick 1715122808000 True,
      Start, Tick 1715122809000 True,
      Start, Tick 1715122810000 True,
      Start, Tick 1715122811000 True,
      Start, Tick 1715122812000 True,
      Start, Tick 1715122813000 True,
      Start, Tick 1715122814000 True,
      Start, Tick 1715122815000 True,
      Start, Tick 1715122816000 True,
      Start, Tick 1715122817000 True,
      Start, Tick 1715122818000 True,
      Start, Tick 1715122819000 True,
      Start, Tick 1715122820000 True,
      Start, Tick 1715122821000 True]"

subsection \<open>Predicates on histories\<close>

text \<open>
  An entry is well formed when the filter of \<open>loadHistory\<close> keeps it; a history
  is newest first when its entries are well formed and their \<^verbatim>\<open>endedAt\<close> does
  not increase along the list.
\<close>

definition well_formed :: "jsval \<Rightarrow> bool" where
  "well_formed entry = (valid_entry entry = Inr True)"

definition endedAt :: "jsval \<Rightarrow> number" where
  "endedAt entry = (case num_prop entry ''endedAt'' of Some n \<Rightarrow> n | None \<Rightarrow> NaN)"

definition newest_first :: "jsval list \<Rightarrow> bool" where
  "newest_first h = (list_all well_formed h \<and> sorted_wrt (\<lambda>a b. endedAt b \<le> endedAt a) h)"

text \<open>The entries of the array stored under the key, if an array is stored there.\<close>

definition stored_entries :: "Window \<Rightarrow> jsval list" where
  "stored_entries w =
     (case w of
        None \<Rightarrow> []
      | Some localStorage \<Rightarrow>
          (case localStorage STORAGE_KEY of
             Some (Serialized (JArr xs)) \<Rightarrow> xs
           | _ \<Rightarrow> []))"

text \<open>A value all of whose numbers are finite.\<close>

primrec finite_numbers :: "jsval \<Rightarrow> bool" where
  "finite_numbers JNull = True"
| "finite_numbers (JBool b) = True"
| "finite_numbers (JNum n) = (case n of Finite q \<Rightarrow> True | _ \<Rightarrow> False)"
| "finite_numbers (JStr x) = True"
| "finite_numbers (JArr xs) = list_all finite_numbers xs"
| "finite_numbers (JObj props) = list_all (pred_prod (\<lambda>name. True) finite_numbers) props"

text \<open>
  The string form of an integer, said without \<open>numToString\<close>: a minus sign if
  the integer is negative, then decimal digits, at least one, whose value is
  the integer's absolute value, with no leading zero but for the string
  \<^verbatim>\<open>0\<close> itself.
\<close>

definition decimal_of :: "int \<Rightarrow> string \<Rightarrow> bool" where
  "decimal_of n x =
     (let ds = (if n < 0 then drop 1 x else x)
      in (n < 0 \<longrightarrow> take 1 x = ''-'')
         \<and> ds \<noteq> [] \<and> list_all is_digit ds \<and> digits_val ds = \<bar>n\<bar>
         \<and> (take 1 ds = ''0'' \<longrightarrow> ds = ''0''))"

text \<open>The invariant of the timer state.\<close>

definition timer_inv :: "Home \<Rightarrow> bool" where
  "timer_inv s = (0 \<le> remaining s \<and> remaining s \<le> totalDuration s)"

section \<open>Properties\<close>

subsection \<open>The year computation meets the standard's definition\<close>

lemma div_sandwich:
  fixes a n :: int
  assumes "0 < n"
  shows "n * (a div n) \<le> a" "a < n * (a div n) + n"
proof -
  have "a = n * (a div n) + a mod n" by simp
  moreover have "0 \<le> a mod n" "a mod n < n" using assms by simp_all
  ultimately show "n * (a div n) \<le> a" "a < n * (a div n) + n" by linarith+
qed

lemma leap_terms_bounds:
  fixes y a b c :: int
  assumes "4 * a \<le> y - 1969" "y - 1969 < 4 * a + 4"
    and "100 * b \<le> y - 1901" "y - 1901 < 100 * b + 100"
    and "400 * c \<le> y - 1601" "y - 1601 < 400 * c + 400"
  shows "146097 * (y - 1970) - 610 \<le> 400 * (365 * (y - 1970) + a - b + c)"
    and "400 * (365 * (y - 1970) + a - b + c) \<le> 146097 * (y - 1970) + 600"
  using assms by simp_all

lemma DayFromYear_bounds:
  "146097 * (y - 1970) - 610 \<le> 400 * DayFromYear y"
  "400 * DayFromYear y \<le> 146097 * (y - 1970) + 600"
  unfolding DayFromYear_def
  by (rule leap_terms_bounds; rule div_sandwich; simp)+

lemma YearFromTime_spec:
  "DayFromYear (YearFromTime t) \<le> Day t \<and> Day t < DayFromYear (YearFromTime t + 1)"
proof -
  define d where "d = Day t"
  define y where "y = 1970 + (400 * d) div 146097"
  have e: "146097 * (y - 1970) \<le> 400 * d" "400 * d < 146097 * (y - 1970) + 146097"
    using div_sandwich [of 146097 "400 * d"] by (simp_all add: y_def)
  have Y: "YearFromTime t = (if d < DayFromYear y then y - 1
         else if DayFromYear (y + 1) \<le> d then y + 1 else y)"
    by (simp add: YearFromTime_def Let_def d_def y_def)
  have lo: "DayFromYear (y - 1) \<le> d"
    using e DayFromYear_bounds(2) [of "y - 1"] by simp
  have hi: "d < DayFromYear (y + 1 + 1)"
    using e DayFromYear_bounds(1) [of "y + 1 + 1"] by simp
  show ?thesis
    unfolding Y d_def [symmetric] using lo hi by simp
qed

lemma leap_terms_mono:
  fixes y z a b c a' b' c' :: int
  assumes "y < z"
    and "a \<le> a'" and "c \<le> c'"
    and "100 * b' \<le> z - 1901" and "y - 1901 < 100 * b + 100"
  shows "365 * (y - 1970) + a - b + c < 365 * (z - 1970) + a' - b' + c'"
proof -
  from assms(4,5) have "100 * (b' - b) < z - y + 100" by simp
  with assms(1) have "100 * (b' - b) < 100 * (365 * (z - y))" by simp
  then have "b' - b < 365 * (z - y)" by simp
  with assms(2,3) show ?thesis by simp
qed

lemma DayFromYear_strict_mono: "y < z \<Longrightarrow> DayFromYear y < DayFromYear z"
  unfolding DayFromYear_def
  by (rule leap_terms_mono) (simp_all add: zdiv_mono1 div_sandwich)

lemma YearFromTime_largest:
  assumes "DayFromYear y \<le> Day t"
  shows "y \<le> YearFromTime t"
proof (rule ccontr)
  assume "\<not> y \<le> YearFromTime t"
  then have "YearFromTime t + 1 \<le> y" by simp
  then have "DayFromYear (YearFromTime t + 1) \<le> DayFromYear y"
    using DayFromYear_strict_mono [of "YearFromTime t + 1" y] by (cases "YearFromTime t + 1 = y") auto
  with assms YearFromTime_spec [of t] show False by simp
qed

subsection \<open>The daily quote depends on the UTC day only\<close>

lemma length_padStart0: "n \<le> length (padStart0 n s)"
  by (simp add: padStart0_def)

lemma length_isoYear: "4 \<le> length (isoYear y)"
  using length_padStart0 [of 4 "digits (nat y)"] length_padStart0 [of 6 "digits (nat \<bar>y\<bar>)"]
  by (simp add: isoYear_def)

lemma length_isoDate: "10 \<le> length (isoDate t)"
  using length_isoYear [of "YearFromTime t"]
    length_padStart0 [of 2 "digits (nat (MonthFromTime t + 1))"]
    length_padStart0 [of 2 "digits (nat (DateFromTime t))"]
  by (simp add: isoDate_def)

lemma dayIndex_isoDate: "dayIndex t = take 10 (isoDate t)"
  using length_isoDate [of t] by (simp add: dayIndex_def slice0_def toISOString_def)

lemma isoDate_cong: "Day t1 = Day t2 \<Longrightarrow> isoDate t1 = isoDate t2"
  by (simp add: isoDate_def YearFromTime_def MonthFromTime_def DateFromTime_def
      DayWithinYear_def InLeapYear_def)

lemma todaysQuote_cong:
  assumes "Day t1 = Day t2"
  shows "todaysQuote t1 = todaysQuote t2"
proof -
  from assms have "isoDate t1 = isoDate t2" by (rule isoDate_cong)
  then have "dayIndex t1 = dayIndex t2" by (simp only: dayIndex_isoDate)
  then have "hash t1 = hash t2" by (simp only: hash_def)
  then show ?thesis by (simp only: todaysQuote_def)
qed

lemma midnight_between:
  assumes "t1 \<le> t2" "Day t1 \<noteq> Day t2"
  shows "\<exists>k. t1 < k * msPerDay \<and> k * msPerDay \<le> t2"
proof -
  have m: "0 < msPerDay" by (simp add: msPerDay_def)
  have "Day t1 \<le> Day t2" using assms(1) m by (simp add: Day_def zdiv_mono1)
  with assms(2) have lt: "Day t1 + 1 \<le> Day t2" by simp
  have "t1 < msPerDay * Day t1 + msPerDay" "msPerDay * Day t2 \<le> t2"
    using div_sandwich [OF m] by (simp_all add: Day_def)
  moreover from lt m have "msPerDay * (Day t1 + 1) \<le> msPerDay * Day t2"
    by (simp only: mult_le_cancel_left_pos)
  ultimately have "t1 < Day t2 * msPerDay \<and> Day t2 * msPerDay \<le> t2"
    by (simp add: algebra_simps)
  then show ?thesis by blast
qed

text \<open>
  Two evaluations on 7 May 2024 in a process five hours west of UTC: at 18:00
  local time (23:00Z) and at 20:00 local time (01:00Z of 8 May).
\<close>

lemma todaysQuote_at_2300Z:
  "todaysQuote 1715122800000
     = Some \<lparr>text = ''Each moment is all we need, not more.'', author = ''Mother Teresa''\<rparr>"
  by code_simp

lemma todaysQuote_at_0100Z:
  "todaysQuote 1715130000000
     = Some \<lparr>text = ''One incense stick can change the air of a room. One focused session can transform a day.'',
         author = ''Unknown''\<rparr>"
  by code_simp

lemma same_local_day:
  "Day (LocalTime (- 18000000) 1715122800000) = Day (LocalTime (- 18000000) 1715130000000)"
  by (simp add: Day_def LocalTime_def msPerDay_def)

text \<open>
  Claim C1, as stated: two evaluations on the same calendar day of the local
  time zone return the same entry. The selector reads the date off
  \<^verbatim>\<open>toISOString()\<close>, which is the UTC date: the two evaluations above fall on
  the same local day and return different entries.
\<close>

theorem todaysQuote_local_day_counterexample:
  "Day (LocalTime (- 18000000) 1715122800000) = Day (LocalTime (- 18000000) 1715130000000)
   \<and> todaysQuote 1715122800000 \<noteq> todaysQuote 1715130000000"
  by (simp add: same_local_day todaysQuote_at_2300Z todaysQuote_at_0100Z)

text \<open>
  Claim C1, amended. The daily selector is a function of the UTC calendar day
  of the evaluation: two evaluations on the same UTC day return the same
  entry, and when two evaluations return different entries a UTC midnight lies
  between them.
\<close>

theorem todaysQuote_utc_day:
  "(Day t1 = Day t2 \<longrightarrow> todaysQuote t1 = todaysQuote t2)
   \<and> (t1 \<le> t2 \<and> todaysQuote t1 \<noteq> todaysQuote t2
        \<longrightarrow> (\<exists>k. t1 < k * msPerDay \<and> k * msPerDay \<le> t2))"
  using todaysQuote_cong [of t1 t2] midnight_between [of t1 t2] by blast

theorem todaysQuote_utc_day_witness:
  "Day 1715040000000 = Day 1715122800000
   \<and> todaysQuote 1715040000000 = todaysQuote 1715122800000
   \<and> (1715122800000 :: int) \<le> 1715130000000
   \<and> todaysQuote 1715122800000 \<noteq> todaysQuote 1715130000000
   \<and> (\<exists>k. 1715122800000 < k * msPerDay \<and> k * msPerDay \<le> 1715130000000)"
proof -
  have h1: "Day 1715040000000 = Day 1715122800000" by (simp add: Day_def msPerDay_def)
  have h2: "(1715122800000 :: int) \<le> 1715130000000" by simp
  have h3: "todaysQuote 1715122800000 \<noteq> todaysQuote 1715130000000"
    by (simp add: todaysQuote_at_2300Z todaysQuote_at_0100Z)
  from todaysQuote_utc_day [of 1715040000000 1715122800000] h1
  have a: "todaysQuote 1715040000000 = todaysQuote 1715122800000" by blast
  from todaysQuote_utc_day [of 1715122800000 1715130000000] h2 h3
  have b: "\<exists>k. 1715122800000 < k * msPerDay \<and> k * msPerDay \<le> 1715130000000" by blast
  from h1 a h2 h3 b show ?thesis by blast
qed

subsection \<open>The countdown\<close>

lemma ticks_append: "ticks (xs @ ys) s = ticks ys (ticks xs s)"
  by (induction xs arbitrary: s) auto

lemma ticks_countdown:
  "isRunning s \<Longrightarrow> int (length ins) < remaining s \<Longrightarrow>
   ticks ins s = s\<lparr>remaining := remaining s - int (length ins)\<rparr>"
proof (induction ins arbitrary: s)
  case Nil
  then show ?case by simp
next
  case (Cons i ins)
  obtain now audio where i: "i = (now, audio)" by (cases i)
  let ?s = "s\<lparr>remaining := remaining s - 1\<rparr>"
  from Cons.prems have t: "tick now audio s = ?s" by (simp add: tick_def)
  from Cons.prems have "isRunning ?s" "int (length ins) < remaining ?s" by simp_all
  from Cons.IH [OF this] show ?case by (simp add: i t)
qed

lemma ticks_last:
  assumes "isRunning s" "0 < remaining s" "int (length ins) = remaining s"
  shows "remaining (ticks ins s) = 0 \<and> \<not> isRunning (ticks ins s)"
proof -
  from assms have "ins \<noteq> []" by auto
  then obtain front now audio where ins: "ins = front @ [(now, audio)]"
    by (metis rev_exhaust surj_pair)
  with assms have len: "int (length front) < remaining s" "remaining s - int (length front) = 1"
    by simp_all
  have "ticks front s = s\<lparr>remaining := remaining s - int (length front)\<rparr>"
    using assms(1) len(1) by (rule ticks_countdown)
  then show ?thesis
    using assms(1) len(2)
    by (simp add: ins ticks_append tick_def complete_def historyEffect_def Let_def)
qed

text \<open>
  Claim C2. For every duration \<open>d\<close> in 5, 10, ..., 60 minutes, from a state with
  \<open>remaining = d * 60\<close> that is not running, \<open>start\<close> followed by \<open>d * 60\<close> ticks
  ends with \<open>remaining = 0\<close> and \<open>isRunning = false\<close>; before that, after \<open>k\<close>
  ticks the timer is still running with \<open>remaining = d * 60 - k\<close>, so every tick
  but the last takes exactly one second off and the last one sets 0.
\<close>

theorem start_then_ticks_reach_zero:
  assumes "d \<in> {5, 10, 15, 20, 25, 30, 35, 40, 45, 50, 55, 60}"
    and "remaining s = d * 60" and "\<not> isRunning s" and "int (length ins) = d * 60"
  shows "remaining (ticks ins (handleStart s)) = 0 \<and> \<not> isRunning (ticks ins (handleStart s))
    \<and> (\<forall>k < length ins. isRunning (ticks (take k ins) (handleStart s))
          \<and> remaining (ticks (take k ins) (handleStart s)) = d * 60 - int k)"
proof -
  from assms(1) have d: "0 < d" by auto
  let ?s = "handleStart s"
  from d assms(2) have st: "isRunning ?s" "remaining ?s = d * 60" "0 < remaining ?s"
    by (simp_all add: handleStart_def)
  have fin: "remaining (ticks ins ?s) = 0 \<and> \<not> isRunning (ticks ins ?s)"
    using st(1) st(3) assms(4) st(2) by (intro ticks_last) simp_all
  have "isRunning (ticks (take k ins) ?s) \<and> remaining (ticks (take k ins) ?s) = d * 60 - int k"
    if "k < length ins" for k
  proof -
    from that assms(4) st(2) have "int (length (take k ins)) < remaining ?s" by simp
    from ticks_countdown [OF st(1) this] that show ?thesis by (simp add: st)
  qed
  with fin show ?thesis by blast
qed

theorem start_then_ticks_reach_zero_witness:
  "(5::int) \<in> {5, 10, 15, 20, 25, 30, 35, 40, 45, 50, 55, 60}
   \<and> remaining (handleDurationChange 300 (initial (Some Map.empty))) = 5 * 60
   \<and> \<not> isRunning (handleDurationChange 300 (initial (Some Map.empty)))
   \<and> int (length (replicate 300 (1715122800000 :: int, True))) = 5 * 60
   \<and> (299::nat) < length (replicate 300 (1715122800000 :: int, True))
   \<and> remaining (ticks (replicate 300 (1715122800000, True))
        (handleStart (handleDurationChange 300 (initial (Some Map.empty))))) = 0
   \<and> \<not> isRunning (ticks (replicate 300 (1715122800000, True))
        (handleStart (handleDurationChange 300 (initial (Some Map.empty)))))
   \<and> remaining (ticks (take 299 (replicate 300 (1715122800000, True)))
        (handleStart (handleDurationChange 300 (initial (Some Map.empty))))) = 1"
proof -
  let ?s = "handleDurationChange 300 (initial (Some Map.empty))"
  let ?ins = "replicate 300 (1715122800000 :: int, True)"
  have h1: "(5::int) \<in> {5, 10, 15, 20, 25, 30, 35, 40, 45, 50, 55, 60}" by simp
  have h2: "remaining ?s = 5 * 60" by (simp add: handleDurationChange_def)
  have h3: "\<not> isRunning ?s" by (simp add: handleDurationChange_def)
  have h4: "int (length ?ins) = 5 * 60" by simp
  have h5: "(299::nat) < length ?ins" by simp
  note r = start_then_ticks_reach_zero [OF h1 h2 h3 h4]
  from r h5 have "remaining (ticks (take 299 ?ins) (handleStart ?s)) = 5 * 60 - int 299"
    by blast
  then have "remaining (ticks (take 299 ?ins) (handleStart ?s)) = 1" by simp
  with r h1 h2 h3 h4 h5 show ?thesis by blast
qed

subsection \<open>Completion\<close>

text \<open>
  \<open>numToString\<close> writes the string form of an integer, and no other string
  is the string form of that integer.
\<close>

lemma digit_char_literals:
  "digit_char 0 = CHR ''0''" "digit_char 1 = CHR ''1''" "digit_char 2 = CHR ''2''"
  "digit_char 3 = CHR ''3''" "digit_char 4 = CHR ''4''" "digit_char 5 = CHR ''5''"
  "digit_char 6 = CHR ''6''" "digit_char 7 = CHR ''7''" "digit_char 8 = CHR ''8''"
  "digit_char 9 = CHR ''9''" "digit_char (Suc 0) = CHR ''1''"
  by code_simp+




lemma digit_char_digit_val: "is_digit c \<Longrightarrow> digit_char (nat (digit_val c)) = c"
proof -
  assume "is_digit c"
  then have "48 \<le> (of_char c :: nat)" "(of_char c :: nat) \<le> 57" by (simp_all add: is_digit_def)
  then have "48 + nat (int (of_char c) - 48) = (of_char c :: nat)" by simp
  then show ?thesis by (simp add: digit_char_def digit_val_def)
qed

lemma digit_val_range: "is_digit c \<Longrightarrow> 0 \<le> digit_val c \<and> digit_val c < 10"
  by (auto simp: is_digit_def digit_val_def)

lemma digits_val_snoc: "digits_val (xs @ [c]) = 10 * digits_val xs + digit_val c"
  by (simp add: digits_val_def)






lemma digits_unique:
  assumes "list_all is_digit ds" and "ds \<noteq> []" and "take 1 ds = ''0'' \<longrightarrow> ds = ''0''"
  shows "ds = digits (nat (digits_val ds)) \<and> 0 \<le> digits_val ds"
  using assms
proof (induction ds rule: rev_induct)
  case Nil
  then show ?case by simp
next
  case (snoc c ys)
  then have c: "is_digit c" by simp
  note r = digit_val_range [OF c]
  show ?case
  proof (cases "ys = []")
    case True
    from r have "nat (digit_val c) < 10" by linarith
    with True r show ?thesis
      by (subst digits.simps) (simp add: digits_val_def digit_char_digit_val [OF c])
  next
    case False
    then have t: "take 1 (ys @ [c]) = take 1 ys" by (cases ys) simp_all
    have nz: "take 1 ys \<noteq> ''0''"
    proof
      assume "take 1 ys = ''0''"
      with t snoc.prems(3) have "ys @ [c] = ''0''" by simp
      with False show False by (cases ys) simp_all
    qed
    from snoc.prems(1) False nz have ih: "ys = digits (nat (digits_val ys))" "0 \<le> digits_val ys"
      using snoc.IH by simp_all
    have pos: "0 < digits_val ys"
    proof (rule ccontr)
      assume "\<not> 0 < digits_val ys"
      with ih(2) have "digits_val ys = 0" by simp
      with ih(1) have "ys = digits 0" by simp
      then have "ys = ''0''" by (simp add: digits.simps digit_char_literals)
      with nz show False by simp
    qed
    let ?m = "digits_val (ys @ [c])"
    have m: "?m = 10 * digits_val ys + digit_val c" by (rule digits_val_snoc)
    with pos r have big: "\<not> nat ?m < 10" "0 \<le> ?m" by linarith+
    from m r pos have "?m div 10 = digits_val ys" "?m mod 10 = digit_val c" by simp_all
    with big(2) nat_div_distrib [of ?m 10] nat_mod_distrib [of ?m 10]
    have "nat ?m div 10 = nat (digits_val ys)" "nat ?m mod 10 = nat (digit_val c)"
      by simp_all
    with big ih(1) digit_char_digit_val [OF c] have "digits (nat ?m) = ys @ [c]"
      by (subst digits.simps) simp
    with big(2) show ?thesis by simp
  qed
qed

lemma decimal_of_unique:
  assumes "decimal_of n x"
  shows "x = numToString n"
proof -
  let ?ds = "if n < 0 then drop 1 x else x"
  from assms have d: "list_all is_digit ?ds" "?ds \<noteq> []" "take 1 ?ds = ''0'' \<longrightarrow> ?ds = ''0''"
    "digits_val ?ds = \<bar>n\<bar>" and sign: "n < 0 \<longrightarrow> take 1 x = ''-''"
    by (simp_all add: decimal_of_def Let_def)
  from digits_unique [OF d(1,2,3)] d(4) have ds: "?ds = digits (nat \<bar>n\<bar>)" by simp
  show ?thesis
  proof (cases "n < 0")
    case True
    with sign have "take 1 x = ''-''" by simp
    then have "x = CHR ''-'' # drop 1 x" by (cases x) simp_all
    with True ds show ?thesis by (simp add: numToString_def)
  next
    case False
    with ds show ?thesis by (simp add: numToString_def)
  qed
qed






subsection \<open>The handlers\<close>

text \<open>
  Claim C6. In every state with \<open>remaining > 0\<close>, \<open>pause\<close> sets \<open>isRunning\<close> to
  false and leaves \<open>remaining\<close> as it is, and a following \<open>start\<close> runs again
  from that same \<open>remaining\<close>, not from \<open>totalDuration\<close>. \<open>start\<close> sets \<open>remaining\<close>
  to \<open>totalDuration\<close> when \<open>remaining\<close> is 0, and in a state of the timer
  (\<open>remaining\<close> not negative) it changes \<open>remaining\<close> in no other case.
\<close>

theorem pause_then_start_resumes:
  "(0 < remaining s \<longrightarrow>
      \<not> isRunning (handlePause s) \<and> remaining (handlePause s) = remaining s
      \<and> isRunning (handleStart (handlePause s))
      \<and> remaining (handleStart (handlePause s)) = remaining s)
   \<and> (remaining s = 0 \<longrightarrow> remaining (handleStart s) = totalDuration s \<and> isRunning (handleStart s))
   \<and> (0 \<le> remaining s \<longrightarrow> remaining (handleStart s) \<noteq> remaining s \<longrightarrow> remaining s = 0)"
  by (simp add: handleStart_def handlePause_def Let_def)

theorem pause_then_start_resumes_witness:
  "0 < remaining ((initial (Some Map.empty))\<lparr>isRunning := True, remaining := 90\<rparr>)
   \<and> \<not> isRunning (handlePause ((initial (Some Map.empty))\<lparr>isRunning := True, remaining := 90\<rparr>))
   \<and> isRunning (handleStart (handlePause ((initial (Some Map.empty))\<lparr>isRunning := True, remaining := 90\<rparr>)))
   \<and> remaining (handleStart (handlePause ((initial (Some Map.empty))\<lparr>isRunning := True, remaining := 90\<rparr>))) = 90
   \<and> remaining ((initial (Some Map.empty))\<lparr>remaining := 0\<rparr>) = 0
   \<and> remaining (handleStart ((initial (Some Map.empty))\<lparr>remaining := 0\<rparr>)) = 1500
   \<and> remaining (handleStart ((initial (Some Map.empty))\<lparr>remaining := 0\<rparr>)) \<noteq> remaining ((initial (Some Map.empty))\<lparr>remaining := 0\<rparr>)"
proof -
  let ?a = "(initial (Some Map.empty))\<lparr>isRunning := True, remaining := 90\<rparr>"
  let ?b = "(initial (Some Map.empty))\<lparr>remaining := 0\<rparr>"
  have ha: "0 < remaining ?a" "remaining ?a = 90" by simp_all
  have hb: "remaining ?b = 0" "totalDuration ?b = 1500"
    by (simp_all add: initial_def DEFAULT_DURATION_def)
  from pause_then_start_resumes [of ?a] ha
  have a: "\<not> isRunning (handlePause ?a)" "isRunning (handleStart (handlePause ?a))"
    "remaining (handleStart (handlePause ?a)) = 90" by simp_all
  from pause_then_start_resumes [of ?b] hb
  have b: "remaining (handleStart ?b) = 1500" by simp
  with hb have "remaining (handleStart ?b) \<noteq> remaining ?b" by simp
  with ha a hb b show ?thesis by blast
qed

text \<open>
  Claim C7. For every value \<open>v\<close> and every state, running or not,
  \<open>setDuration v\<close> sets \<open>totalDuration\<close> and \<open>remaining\<close> to \<open>v\<close> and \<open>isRunning\<close> to
  false; the session in progress is halted: a tick after it changes nothing.
\<close>

theorem handleDurationChange_resets:
  "totalDuration (handleDurationChange v s) = v
   \<and> remaining (handleDurationChange v s) = v
   \<and> \<not> isRunning (handleDurationChange v s)
   \<and> tick now audio (handleDurationChange v s) = handleDurationChange v s"
  by (simp add: handleDurationChange_def tick_def)

theorem handleDurationChange_resets_witness:
  "isRunning ((initial (Some Map.empty))\<lparr>isRunning := True, remaining := 90\<rparr>)
   \<and> totalDuration (handleDurationChange 600 ((initial (Some Map.empty))\<lparr>isRunning := True, remaining := 90\<rparr>)) = 600
   \<and> remaining (handleDurationChange 600 ((initial (Some Map.empty))\<lparr>isRunning := True, remaining := 90\<rparr>)) = 600
   \<and> \<not> isRunning (handleDurationChange 600 ((initial (Some Map.empty))\<lparr>isRunning := True, remaining := 90\<rparr>))"
  using handleDurationChange_resets [of 600 "(initial (Some Map.empty))\<lparr>isRunning := True, remaining := 90\<rparr>"]
  by simp

text \<open>
  Claim C8, as stated: every operation preserves \<open>0 \<le> remaining \<le> totalDuration\<close>,
  and \<open>remaining\<close> only decreases while running. Moving the duration control
  from 25 to 5 minutes in the initial state, where the timer is not running,
  takes \<open>remaining\<close> from 1500 down to 300. And \<open>setDuration\<close> keeps the bounds
  only for a value that is not negative.
\<close>

theorem timer_invariant_counterexample:
  "timer_inv (initial (Some Map.empty))
   \<and> \<not> isRunning (initial (Some Map.empty))
   \<and> remaining (initial (Some Map.empty)) = 1500
   \<and> remaining (step (SetDuration 300) (initial (Some Map.empty))) = 300
   \<and> \<not> timer_inv (step (SetDuration (- 60)) (initial (Some Map.empty)))"
  by (simp add: timer_inv_def initial_def DEFAULT_DURATION_def handleDurationChange_def)

text \<open>
  Claim C8, amended. \<open>start\<close>, \<open>pause\<close>, \<open>reset\<close> and \<open>tick\<close> take a state with
  \<open>0 \<le> remaining \<le> totalDuration\<close> to a state with the same property, and
  \<open>setDuration v\<close> gives such a state exactly when \<open>v\<close> is not negative (as is
  every value of the duration control). \<open>remaining\<close> never goes negative. Under
  \<open>start\<close>, \<open>pause\<close>, \<open>reset\<close> and \<open>tick\<close> it decreases only in a tick of a
  running timer, and then by exactly one; a tick leaves it alone while the
  timer is not running; \<open>setDuration v\<close> sets it to \<open>v\<close>, running or not, which
  may lower it. \<open>reset\<close>, and \<open>start\<close> from 0, set it to \<open>totalDuration\<close>.
\<close>

theorem timer_invariant_preserved:
  "timer_inv s \<Longrightarrow>
     timer_inv (handleStart s) \<and> timer_inv (handlePause s) \<and> timer_inv (handleReset s)
     \<and> timer_inv (tick now audio s)
     \<and> (timer_inv (handleDurationChange v s) \<longleftrightarrow> 0 \<le> v)
     \<and> remaining (handleDurationChange v s) = v
     \<and> 0 \<le> remaining (handleStart s) \<and> 0 \<le> remaining (handlePause s)
     \<and> 0 \<le> remaining (handleReset s) \<and> 0 \<le> remaining (tick now audio s)
     \<and> remaining (tick now audio s) \<le> remaining s
     \<and> (\<not> isRunning s \<longrightarrow> remaining (tick now audio s) = remaining s)
     \<and> (isRunning s \<and> 0 < remaining s \<longrightarrow> remaining (tick now audio s) = remaining s - 1)
     \<and> remaining s \<le> remaining (handleStart s) \<and> remaining (handlePause s) = remaining s
     \<and> remaining (handleReset s) = totalDuration s
     \<and> (remaining s = 0 \<longrightarrow> remaining (handleStart s) = totalDuration s)
     \<and> ((\<forall>u. e \<noteq> SetDuration u) \<and> remaining (step e s) < remaining s
          \<longrightarrow> isRunning s \<and> (\<exists>t a. e = Tick t a) \<and> remaining (step e s) = remaining s - 1)"
proof -
  assume inv: "timer_inv s"
  have decrease: "(\<forall>u. e \<noteq> SetDuration u) \<and> remaining (step e s) < remaining s
          \<longrightarrow> isRunning s \<and> (\<exists>t a. e = Tick t a) \<and> remaining (step e s) = remaining s - 1"
    using inv
    by (cases e)
      (auto simp add: timer_inv_def handleStart_def handlePause_def handleReset_def
        tick_def complete_def historyEffect_def Let_def)
  have "timer_inv (handleStart s) \<and> timer_inv (handlePause s) \<and> timer_inv (handleReset s)
     \<and> timer_inv (tick now audio s)
     \<and> (timer_inv (handleDurationChange v s) \<longleftrightarrow> 0 \<le> v)
     \<and> remaining (handleDurationChange v s) = v
     \<and> 0 \<le> remaining (handleStart s) \<and> 0 \<le> remaining (handlePause s)
     \<and> 0 \<le> remaining (handleReset s) \<and> 0 \<le> remaining (tick now audio s)
     \<and> remaining (tick now audio s) \<le> remaining s
     \<and> (\<not> isRunning s \<longrightarrow> remaining (tick now audio s) = remaining s)
     \<and> (isRunning s \<and> 0 < remaining s \<longrightarrow> remaining (tick now audio s) = remaining s - 1)
     \<and> remaining s \<le> remaining (handleStart s) \<and> remaining (handlePause s) = remaining s
     \<and> remaining (handleReset s) = totalDuration s
     \<and> (remaining s = 0 \<longrightarrow> remaining (handleStart s) = totalDuration s)"
    using inv
    by (auto simp add: timer_inv_def handleStart_def handlePause_def handleReset_def
        handleDurationChange_def tick_def complete_def historyEffect_def Let_def)
  with decrease show ?thesis by blast
qed

theorem timer_invariant_preserved_witness:
  "timer_inv ((initial (Some Map.empty))\<lparr>isRunning := True, remaining := 1\<rparr>)
   \<and> (0::int) \<le> 300
   \<and> timer_inv (handleDurationChange 300 ((initial (Some Map.empty))\<lparr>isRunning := True, remaining := 1\<rparr>))
   \<and> timer_inv (tick 1715122800000 True ((initial (Some Map.empty))\<lparr>isRunning := True, remaining := 1\<rparr>))
   \<and> remaining (step (Tick 1715122800000 True)
        ((initial (Some Map.empty))\<lparr>isRunning := True, remaining := 1\<rparr>)) = 0
   \<and> remaining (tick 1715122800000 True ((initial (Some Map.empty))\<lparr>isRunning := True, remaining := 1\<rparr>)) = 0
   \<and> timer_inv ((initial (Some Map.empty))\<lparr>remaining := 0\<rparr>)
   \<and> \<not> isRunning ((initial (Some Map.empty))\<lparr>remaining := 0\<rparr>)
   \<and> remaining (tick 1715122800000 True ((initial (Some Map.empty))\<lparr>remaining := 0\<rparr>)) = 0
   \<and> remaining (handleStart ((initial (Some Map.empty))\<lparr>remaining := 0\<rparr>)) = 1500"
proof -
  let ?a = "(initial (Some Map.empty))\<lparr>isRunning := True, remaining := 1\<rparr>"
  let ?b = "(initial (Some Map.empty))\<lparr>remaining := 0\<rparr>"
  let ?e = "Tick 1715122800000 True"
  have ia: "timer_inv ?a" by (simp add: timer_inv_def initial_def DEFAULT_DURATION_def)
  have ib: "timer_inv ?b" by (simp add: timer_inv_def initial_def DEFAULT_DURATION_def)
  have fa: "isRunning ?a" "0 < remaining ?a" "remaining ?a = 1" "(0::int) \<le> 300" by simp_all
  have fb: "\<not> isRunning ?b" "remaining ?b = 0" "totalDuration ?b = 1500"
    by (simp_all add: initial_def DEFAULT_DURATION_def)
  have ea: "\<forall>u. ?e \<noteq> SetDuration u" "remaining (step ?e ?a) < remaining ?a"
    by (simp_all add: tick_def complete_def historyEffect_def Let_def)
  note ta = timer_invariant_preserved [OF ia, of 1715122800000 True 300 ?e]
  from ta fa(4) have a1: "timer_inv (handleDurationChange 300 ?a)" by blast
  from ta have a2: "timer_inv (tick 1715122800000 True ?a)" by blast
  from ta fa(1,2) have "remaining (tick 1715122800000 True ?a) = remaining ?a - 1" by blast
  with fa(3) have a3: "remaining (tick 1715122800000 True ?a) = 0" by simp
  from ta ea have "remaining (step ?e ?a) = remaining ?a - 1" by blast
  with fa(3) have a4: "remaining (step ?e ?a) = 0" by simp
  note tb = timer_invariant_preserved [OF ib, of 1715122800000 True 300 Start]
  from tb fb(1) have "remaining (tick 1715122800000 True ?b) = remaining ?b" by blast
  with fb(2) have b1: "remaining (tick 1715122800000 True ?b) = 0" by simp
  from tb fb(2) have "remaining (handleStart ?b) = totalDuration ?b" by blast
  with fb(3) have b2: "remaining (handleStart ?b) = 1500" by simp
  from ia ib fa fb a1 a2 a3 a4 b1 b2 show ?thesis by blast
qed

subsection \<open>Loading and persisting the history\<close>

lemma filter_list_filter:
  "filter_list f xs = Inr ys \<Longrightarrow> ys = filter (\<lambda>x. f x = Inr True) xs"
  by (induction xs arbitrary: ys) (auto split: sum.splits if_splits)

lemma filter_list_all:
  "list_all (\<lambda>x. f x = Inr True) xs \<Longrightarrow> filter_list f xs = Inr xs"
  by (induction xs) auto

lemma number_le_not_NaN: "x \<le> y \<Longrightarrow> x \<noteq> NaN \<and> y \<noteq> NaN" for x y :: number
  by (cases x; cases y; simp)

lemma number_le_total: "x \<noteq> NaN \<Longrightarrow> y \<noteq> NaN \<Longrightarrow> x \<le> y \<or> y \<le> x" for x y :: number
  by (cases x; cases y; auto)

lemma number_le_trans: "x \<le> y \<Longrightarrow> y \<le> z \<Longrightarrow> x \<le> z" for x y z :: number
  by (cases x; cases y; cases z; simp)

lemma keeps_order_num_sub:
  "x \<noteq> NaN \<Longrightarrow> y \<noteq> NaN \<Longrightarrow> keeps_order (num_sub y x) = (y \<le> x)"
  by (cases x; cases y; simp)

lemma is_number_iff: "is_number v \<longleftrightarrow> (\<exists>n. v = Some (JNum n))"
  by (cases v rule: is_number.cases) simp_all

lemma valid_entry_JObj:
  "valid_entry (JObj props) =
     Inr (is_number (map_of props ''endedAt'') \<and> is_number (map_of props ''duration''))"
  by (simp add: valid_entry_def)

lemma well_formed_iff:
  "well_formed entry \<longleftrightarrow>
     (\<exists>props a d. entry = JObj props \<and> map_of props ''endedAt'' = Some (JNum a)
        \<and> map_of props ''duration'' = Some (JNum d))"
proof (cases entry)
  case (JObj props)
  then show ?thesis by (auto simp: well_formed_def valid_entry_JObj is_number_iff)
qed (simp_all add: well_formed_def valid_entry_def)

lemma well_formed_endedAt:
  assumes "well_formed entry"
  shows "num_prop entry ''endedAt'' = Some (endedAt entry)"
proof -
  from assms obtain props a where "entry = JObj props" "map_of props ''endedAt'' = Some (JNum a)"
    unfolding well_formed_iff by blast
  then show ?thesis by (simp add: num_prop_def endedAt_def)
qed

lemma keeps_order_by_endedAt:
  "well_formed x \<Longrightarrow> well_formed y \<Longrightarrow> endedAt x \<noteq> NaN \<Longrightarrow> endedAt y \<noteq> NaN \<Longrightarrow>
   keeps_order (by_endedAt x y) = (endedAt y \<le> endedAt x)"
  by (simp add: by_endedAt_def well_formed_endedAt keeps_order_num_sub)

text \<open>A parsed value has no \<open>NaN\<close>: none is the \<^verbatim>\<open>endedAt\<close> of an entry of a parsed array.\<close>

lemma nan_free_endedAt:
  assumes "nan_free entry" and "well_formed entry"
  shows "endedAt entry \<noteq> NaN"
proof -
  from assms(2) obtain props a where
    e: "entry = JObj props" "map_of props ''endedAt'' = Some (JNum a)"
    unfolding well_formed_iff by blast
  from e(2) have "(''endedAt'', JNum a) \<in> set props" by (rule map_of_SomeD)
  with assms(1) e(1) have "nan_free (JNum a)" by (auto simp: list_all_iff)
  with e show ?thesis by (simp add: endedAt_def num_prop_def)
qed

lemma well_formed_SessionRecord: "well_formed (SessionRecord i b e d)"
  by (simp add: well_formed_iff SessionRecord_def)

lemma endedAt_SessionRecord: "endedAt (SessionRecord i b e d) = e"
  by (simp add: endedAt_def num_prop_def SessionRecord_def)

lemma well_formed_build: "well_formed (buildSessionRecord now d)"
  by (simp add: buildSessionRecord_def well_formed_SessionRecord)

lemma endedAt_build: "endedAt (buildSessionRecord now d) = Finite (of_int now)"
  by (simp add: buildSessionRecord_def endedAt_SessionRecord)

lemma buildSessionRecord_eq:
  "buildSessionRecord a d = buildSessionRecord b e \<longleftrightarrow> a = b \<and> d = e"
  by (auto simp: buildSessionRecord_def SessionRecord_def Let_def)

text \<open>The sort returns a permutation, ordered by \<open>endedAt\<close> descending, and is stable.\<close>

lemma mset_insert_by: "mset (insert_by cmp x ys) = add_mset x (mset ys)"
  by (induction ys) auto

lemma mset_sort_by: "mset (sort_by cmp xs) = mset xs"
  by (induction xs) (auto simp: mset_insert_by)

lemma set_insert_by: "set (insert_by cmp x ys) = insert x (set ys)"
  using mset_insert_by [of cmp x ys] by (metis set_mset_mset set_mset_add_mset_insert)

lemma length_sort_by: "length (sort_by cmp xs) = length xs"
  by (metis mset_sort_by size_mset)

lemma sorted_insert_by:
  assumes "well_formed x" "endedAt x \<noteq> NaN"
    and "list_all well_formed ys" "list_all (\<lambda>y. endedAt y \<noteq> NaN) ys"
    and "sorted_wrt (\<lambda>a b. endedAt b \<le> endedAt a) ys"
  shows "sorted_wrt (\<lambda>a b. endedAt b \<le> endedAt a) (insert_by by_endedAt x ys)"
  using assms(3-5)
proof (induction ys)
  case Nil
  then show ?case by simp
next
  case (Cons y ys)
  then have y: "well_formed y" "endedAt y \<noteq> NaN" by simp_all
  with assms(1,2) have k: "keeps_order (by_endedAt x y) = (endedAt y \<le> endedAt x)"
    by (simp add: keeps_order_by_endedAt)
  show ?case
  proof (cases "endedAt y \<le> endedAt x")
    case True
    have "endedAt z \<le> endedAt x" if "z \<in> set ys" for z
      using that Cons.prems(3) True number_le_trans [of "endedAt z" "endedAt y" "endedAt x"]
      by auto
    with True Cons.prems(3) k show ?thesis by auto
  next
    case False
    with assms(2) y(2) have "endedAt x \<le> endedAt y"
      using number_le_total [of "endedAt x" "endedAt y"] by blast
    moreover from Cons have "sorted_wrt (\<lambda>a b. endedAt b \<le> endedAt a) (insert_by by_endedAt x ys)"
      by simp
    ultimately show ?thesis using False k Cons.prems(3) by (auto simp: set_insert_by)
  qed
qed

lemma set_sort_by: "set (sort_by cmp xs) = set xs"
  by (metis mset_sort_by set_mset_mset)

lemma newest_first_sort_by:
  "list_all well_formed xs \<Longrightarrow> list_all (\<lambda>x. endedAt x \<noteq> NaN) xs \<Longrightarrow>
   newest_first (sort_by by_endedAt xs)"
proof (induction xs)
  case Nil
  then show ?case by (simp add: newest_first_def)
next
  case (Cons x xs)
  then have ih: "newest_first (sort_by by_endedAt xs)"
    and x: "well_formed x" "endedAt x \<noteq> NaN"
    and xs: "list_all well_formed (sort_by by_endedAt xs)"
      "list_all (\<lambda>y. endedAt y \<noteq> NaN) (sort_by by_endedAt xs)"
    by (simp_all add: list_all_iff set_sort_by)
  from ih have "sorted_wrt (\<lambda>a b. endedAt b \<le> endedAt a) (sort_by by_endedAt xs)"
    by (simp add: newest_first_def)
  with x xs have "sorted_wrt (\<lambda>a b. endedAt b \<le> endedAt a)
      (insert_by by_endedAt x (sort_by by_endedAt xs))"
    by (intro sorted_insert_by)
  with x(1) xs(1) show ?case
    by (simp add: newest_first_def list_all_iff set_insert_by)
qed

lemma sort_by_sorted:
  "sorted_wrt (\<lambda>a b. keeps_order (cmp a b)) xs \<Longrightarrow> sort_by cmp xs = xs"
proof (induction xs)
  case Nil
  then show ?case by simp
next
  case (Cons x xs)
  then have "sort_by cmp xs = xs" by simp
  with Cons.prems show ?case by (cases xs) auto
qed

text \<open>What a load returns: nothing, or the well-formed stored entries, sorted.\<close>

lemma loadHistory_try_entries:
  assumes "loadHistory_try ls = Inr h"
  shows "h = [] \<or> nan_free (JArr (stored_entries (Some ls)))
      \<and> h = sort_by by_endedAt (filter well_formed (stored_entries (Some ls)))"
proof (cases "ls STORAGE_KEY")
  case None
  with assms show ?thesis by (simp add: loadHistory_try_def)
next
  case (Some r)
  show ?thesis
  proof (cases r)
    case EmptyString
    with Some assms show ?thesis by (simp add: loadHistory_try_def)
  next
    case Unparseable
    with Some assms show ?thesis by (simp add: loadHistory_try_def)
  next
    case (Serialized v)
    show ?thesis
    proof (cases v)
      case (JArr xs)
      with Some Serialized assms obtain kept where
        k: "filter_list valid_entry xs = Inr kept" "h = sort_by by_endedAt kept"
        and n: "list_all nan_free xs"
        by (auto simp: loadHistory_try_def split: sum.splits if_splits)
      from k(1) have "kept = filter well_formed xs"
        unfolding well_formed_def by (rule filter_list_filter)
      with k(2) n Some Serialized JArr show ?thesis by (simp add: stored_entries_def)
    qed (use Some Serialized assms in
        \<open>auto simp add: loadHistory_try_def split: if_splits\<close>)
  qed
qed

lemma loadHistory_entries:
  "fst (loadHistory w) = [] \<or> nan_free (JArr (stored_entries w))
     \<and> fst (loadHistory w) = sort_by by_endedAt (filter well_formed (stored_entries w))"
proof (cases w)
  case None
  then show ?thesis by (simp add: loadHistory_def)
next
  case (Some ls)
  show ?thesis
  proof (cases "loadHistory_try ls")
    case (Inl e)
    with Some show ?thesis by (simp add: loadHistory_def)
  next
    case (Inr h)
    with Some loadHistory_try_entries [OF Inr] show ?thesis by (simp add: loadHistory_def)
  qed
qed

lemma newest_first_loadHistory: "newest_first (fst (loadHistory w))"
proof -
  have "newest_first (sort_by by_endedAt (filter well_formed (stored_entries w)))"
    if "nan_free (JArr (stored_entries w))"
  proof (rule newest_first_sort_by)
    show "list_all well_formed (filter well_formed (stored_entries w))"
      by (simp add: list_all_iff)
    show "list_all (\<lambda>x. endedAt x \<noteq> NaN) (filter well_formed (stored_entries w))"
      using that by (simp add: list_all_iff nan_free_endedAt)
  qed
  moreover have "newest_first []" by (simp add: newest_first_def)
  ultimately show ?thesis using loadHistory_entries [of w] by metis
qed

lemma length_loadHistory: "length (fst (loadHistory w)) \<le> length (stored_entries w)"
  using loadHistory_entries [of w] by (auto simp: length_sort_by)

lemma loadHistory_well_formed_array:
  assumes "ls STORAGE_KEY = Some (Serialized (JArr xs))" and "list_all nan_free xs"
    and "list_all well_formed xs"
  shows "loadHistory (Some ls) = (sort_by by_endedAt xs, [])"
proof -
  have "filter_list valid_entry xs = Inr xs"
    using assms(3) unfolding well_formed_def by (rule filter_list_all)
  with assms(1,2) show ?thesis by (simp add: loadHistory_def loadHistory_try_def)
qed

text \<open>
  A value whose numbers are all finite is written and read back as it is;
  whatever the value, what is written has no \<open>NaN\<close>.
\<close>

lemma written_finite: "finite_numbers v \<Longrightarrow> written v = v"
  by (induction v) (auto simp: list_all_iff map_idI split: number.splits intro!: map_idI)

lemma nan_free_written: "nan_free (written v)"
  by (induction v) (auto simp: list_all_iff split: number.splits)

lemma loadHistory_persisted:
  assumes "list_all well_formed h" and "list_all finite_numbers h"
    and "sorted_wrt (\<lambda>a b. endedAt b \<le> endedAt a) h"
  shows "loadHistory (persistHistory h (Some localStorage)) = (h, [])"
proof -
  from assms(2) have w: "written (JArr h) = JArr h"
    by (intro written_finite) simp
  have n: "list_all nan_free h"
    using nan_free_written [of "JArr h"] unfolding w by simp
  with assms(1) have nn: "list_all (\<lambda>x. endedAt x \<noteq> NaN) h"
    by (simp add: list_all_iff nan_free_endedAt)
  have "sorted_wrt (\<lambda>a b. keeps_order (by_endedAt a b)) h"
    using assms(1,3) nn by (induction h) (auto simp: keeps_order_by_endedAt list_all_iff)
  then have s: "sort_by by_endedAt h = h" by (rule sort_by_sorted)
  have "loadHistory (Some (localStorage(STORAGE_KEY \<mapsto> Serialized (JArr h))))
          = (sort_by by_endedAt h, [])"
    using n assms(1) by (intro loadHistory_well_formed_array) simp_all
  with s w show ?thesis by (simp add: persistHistory_def JSON_stringify_def)
qed

lemma history_mount: "history (mount s) = fst (loadHistory (window s))"
  by (simp add: mount_def historyEffect_def Let_def)

text \<open>
  A failure inside \<^verbatim>\<open>try\<close> gives the empty history and one line on the console;
  a stored array without a \<^verbatim>\<open>null\<close> entry is loaded as its well-formed
  entries, sorted, whatever else it holds.
\<close>

lemma loadHistory_failure:
  "loadHistory_try ls = Inl e \<Longrightarrow> loadHistory (Some ls) = ([], [''Failed to parse history''])"
  by (simp add: loadHistory_def)

lemma valid_entry_not_null: "entry \<noteq> JNull \<Longrightarrow> \<exists>b. valid_entry entry = Inr b"
  by (cases entry) (auto simp add: valid_entry_def)

lemma filter_list_total:
  "list_all (\<lambda>x. \<exists>b. f x = Inr b) xs \<Longrightarrow>
   filter_list f xs = Inr (filter (\<lambda>x. f x = Inr True) xs)"
  by (induction xs) auto

lemma loadHistory_without_null:
  assumes "ls STORAGE_KEY = Some (Serialized (JArr xs))" and "list_all nan_free xs"
    and "list_all (\<lambda>x. x \<noteq> JNull) xs"
  shows "loadHistory (Some ls) = (sort_by by_endedAt (filter well_formed xs), [])"
proof -
  from assms(3) have "list_all (\<lambda>x. \<exists>b. valid_entry x = Inr b) xs"
    by (simp add: list_all_iff valid_entry_not_null)
  then have "filter_list valid_entry xs = Inr (filter well_formed xs)"
    unfolding well_formed_def by (rule filter_list_total)
  with assms(1,2) show ?thesis by (simp add: loadHistory_def loadHistory_try_def)
qed

text \<open>
  Claim C5 says that a parseable array is validated entry by entry and that a
  malformed entry is dropped without failing the whole load. For a stored
  array with a \<^verbatim>\<open>null\<close> entry the callback's read \<^verbatim>\<open>entry.endedAt\<close> throws, the
  \<^verbatim>\<open>catch\<close> takes over, and the load returns the empty history and logs the
  failure: the well-formed record stored next to the \<^verbatim>\<open>null\<close> is not returned,
  and mounting the component then persists the empty history over it.
\<close>

theorem loadHistory_null_entry:
  "loadHistory (Some [STORAGE_KEY \<mapsto> Serialized (JArr
      [JNull, SessionRecord ''1715122800000'' (Finite 1715121300000) (Finite 1715122800000) (Finite 1500)])])
   = ([], [''Failed to parse history''])
   \<and> window (mount (initial (Some [STORAGE_KEY \<mapsto> Serialized (JArr
      [JNull, SessionRecord ''1715122800000'' (Finite 1715121300000) (Finite 1715122800000) (Finite 1500)])])))
   = Some [STORAGE_KEY \<mapsto> Serialized (JArr [])]"
proof -
  let ?w = "Some [STORAGE_KEY \<mapsto> Serialized (JArr
      [JNull, SessionRecord ''1715122800000'' (Finite 1715121300000) (Finite 1715122800000) (Finite 1500)])]"
  have l: "loadHistory ?w = ([], [''Failed to parse history''])"
    by (simp add: loadHistory_def loadHistory_try_def valid_entry_def)
  have "window (mount (initial ?w)) = Some [STORAGE_KEY \<mapsto> Serialized (JArr [])]"
    by (simp add: mount_def Let_def initial_def historyEffect_def persistHistory_def
        JSON_stringify_def l)
  with l show ?thesis by simp
qed

text \<open>
  The page calls \<open>loadHistory\<close> and \<open>persistHistory\<close> only from its effects and
  from the interval callback, where a window exists; the statements below are
  about such a window.

  Claim C10, as stated: loading right after persisting a list of records
  whose \<^verbatim>\<open>endedAt\<close> and \<^verbatim>\<open>duration\<close> are numbers, strictly descending by
  \<^verbatim>\<open>endedAt\<close>, returns that list. An infinity is a number to \<^verbatim>\<open>typeof\<close>, and
  \<^verbatim>\<open>JSON.stringify\<close> writes it as \<^verbatim>\<open>null\<close>. A stored record with
  \<^verbatim>\<open>"endedAt": 1e999\<close> is loaded as a history of one record, which is well
  formed and (alone) strictly descending; persisted, as mounting does, and
  loaded again, the record is dropped. A record with \<^verbatim>\<open>"startedAt": -1e999\<close> comes back with
  \<^verbatim>\<open>"startedAt": null\<close>.
\<close>

theorem persist_then_load_counterexample:
  "list_all well_formed
     [SessionRecord ''1715122800000'' (Finite 1715121300000) PosInf (Finite 1500)]
   \<and> sorted_wrt (\<lambda>a b. endedAt b < endedAt a)
     [SessionRecord ''1715122800000'' (Finite 1715121300000) PosInf (Finite 1500)]
   \<and> history (mount (initial (Some [STORAGE_KEY \<mapsto> Serialized (JArr
       [SessionRecord ''1715122800000'' (Finite 1715121300000) PosInf (Finite 1500)])])))
     = [SessionRecord ''1715122800000'' (Finite 1715121300000) PosInf (Finite 1500)]
   \<and> loadHistory (window (mount (initial (Some [STORAGE_KEY \<mapsto> Serialized (JArr
       [SessionRecord ''1715122800000'' (Finite 1715121300000) PosInf (Finite 1500)])]))))
     = ([], [])
   \<and> loadHistory (persistHistory
       [SessionRecord ''1715122800000'' (Finite 1715121300000) PosInf (Finite 1500)]
       (Some Map.empty))
     = ([], [])
   \<and> loadHistory (persistHistory
       [SessionRecord ''1715122800000'' NegInf (Finite 1715122800000) (Finite 1500)]
       (Some Map.empty))
     = ([JObj [(''id'', JStr ''1715122800000''), (''startedAt'', JNull),
               (''endedAt'', JNum (Finite 1715122800000)), (''duration'', JNum (Finite 1500))]],
        [])"
proof -
  let ?r = "SessionRecord ''1715122800000'' (Finite 1715121300000) PosInf (Finite 1500)"
  let ?q = "SessionRecord ''1715122800000'' NegInf (Finite 1715122800000) (Finite 1500)"
  have a: "list_all well_formed [?r]" by (simp add: well_formed_SessionRecord)
  have b: "sorted_wrt (\<lambda>a b. endedAt b < endedAt a) [?r]" by simp
  have "loadHistory (Some [STORAGE_KEY \<mapsto> Serialized (JArr [?r])]) = (sort_by by_endedAt [?r], [])"
    by (rule loadHistory_well_formed_array)
      (simp_all add: well_formed_iff SessionRecord_def)
  then have l: "loadHistory (Some [STORAGE_KEY \<mapsto> Serialized (JArr [?r])]) = ([?r], [])"
    by simp
  then have c: "history (mount (initial (Some [STORAGE_KEY \<mapsto> Serialized (JArr [?r])]))) = [?r]"
    by (simp add: history_mount initial_def)
  have m: "loadHistory (window (mount (initial (Some [STORAGE_KEY \<mapsto> Serialized (JArr [?r])]))))
      = ([], [])"
    by (simp add: mount_def Let_def initial_def historyEffect_def l)
      (simp add: persistHistory_def JSON_stringify_def SessionRecord_def loadHistory_def
        loadHistory_try_def valid_entry_def)
  have d: "loadHistory (persistHistory [?r] (Some Map.empty)) = ([], [])"
    by (simp add: persistHistory_def JSON_stringify_def SessionRecord_def loadHistory_def
        loadHistory_try_def valid_entry_def)
  have e: "loadHistory (persistHistory [?q] (Some Map.empty))
     = ([JObj [(''id'', JStr ''1715122800000''), (''startedAt'', JNull),
               (''endedAt'', JNum (Finite 1715122800000)), (''duration'', JNum (Finite 1500))]],
        [])"
    by (simp add: persistHistory_def JSON_stringify_def SessionRecord_def loadHistory_def
        loadHistory_try_def valid_entry_def)
  from a b c m d e show ?thesis by blast
qed

text \<open>
  Claim C10, amended. Persist-then-load is the identity on well-formed
  histories whose numbers are finite: for every list of entries whose
  \<^verbatim>\<open>endedAt\<close> and \<^verbatim>\<open>duration\<close> are numbers, all of whose numbers are finite, and
  which is strictly descending by \<^verbatim>\<open>endedAt\<close>, loading right after persisting
  the list returns exactly the list, and logs nothing.
\<close>

theorem persist_then_load_identity:
  assumes "list_all well_formed h" and "list_all finite_numbers h"
    and "sorted_wrt (\<lambda>a b. endedAt b < endedAt a) h"
  shows "loadHistory (persistHistory h (Some localStorage)) = (h, [])"
proof -
  from assms(3) have "sorted_wrt (\<lambda>a b. endedAt b \<le> endedAt a) h"
    by (rule sorted_wrt_mono_rel [rotated]) (simp add: less_number_def)
  with assms(1,2) show ?thesis by (rule loadHistory_persisted)
qed

theorem persist_then_load_identity_witness:
  "list_all well_formed
     [SessionRecord ''1715122800000'' (Finite 1715121300000) (Finite 1715122800000) (Finite 1500),
      SessionRecord ''1715040000000'' (Finite 1715039700000) (Finite 1715040000000) (Finite 300)]
   \<and> list_all finite_numbers
     [SessionRecord ''1715122800000'' (Finite 1715121300000) (Finite 1715122800000) (Finite 1500),
      SessionRecord ''1715040000000'' (Finite 1715039700000) (Finite 1715040000000) (Finite 300)]
   \<and> sorted_wrt (\<lambda>a b. endedAt b < endedAt a)
     [SessionRecord ''1715122800000'' (Finite 1715121300000) (Finite 1715122800000) (Finite 1500),
      SessionRecord ''1715040000000'' (Finite 1715039700000) (Finite 1715040000000) (Finite 300)]
   \<and> loadHistory (persistHistory
       [SessionRecord ''1715122800000'' (Finite 1715121300000) (Finite 1715122800000) (Finite 1500),
        SessionRecord ''1715040000000'' (Finite 1715039700000) (Finite 1715040000000) (Finite 300)]
       (Some Map.empty))
     = ([SessionRecord ''1715122800000'' (Finite 1715121300000) (Finite 1715122800000) (Finite 1500),
         SessionRecord ''1715040000000'' (Finite 1715039700000) (Finite 1715040000000) (Finite 300)],
        [])"
proof -
  let ?h = "[SessionRecord ''1715122800000'' (Finite 1715121300000) (Finite 1715122800000) (Finite 1500),
             SessionRecord ''1715040000000'' (Finite 1715039700000) (Finite 1715040000000) (Finite 300)]"
  have h1: "list_all well_formed ?h" by (simp add: well_formed_SessionRecord)
  have h2: "list_all finite_numbers ?h" by (simp add: SessionRecord_def)
  have h3: "sorted_wrt (\<lambda>a b. endedAt b < endedAt a) ?h"
    by (simp add: endedAt_SessionRecord less_number_def)
  from persist_then_load_identity [OF h1 h2 h3, of Map.empty] h1 h2 h3 show ?thesis by blast
qed

subsection \<open>The history of a run\<close>

lemma history_step:
  "history (step e s) = (if completes e s then take 20 (built e s @ history s) else history s)"
  by (cases e)
    (simp_all add: handleStart_def handlePause_def handleReset_def handleDurationChange_def
      tick_def complete_def historyEffect_def Let_def)

lemma built_completes: "built e s = [] \<longleftrightarrow> \<not> completes e s"
  by (cases e) simp_all

lemma take_append_take: "take n (xs @ take n ys) = take n (xs @ ys)"
  by (simp add: min_def)

lemma history_run:
  "history (run es s) =
     (if completions es s = [] then history s else take 20 (rev (completions es s) @ history s))"
proof (induction es arbitrary: s)
  case Nil
  then show ?case by simp
next
  case (Cons e es)
  show ?case
  proof (cases "completes e s")
    case False
    then have "built e s = []" "history (step e s) = history s"
      by (simp_all add: built_completes history_step)
    with Cons.IH [of "step e s"] show ?thesis by simp
  next
    case True
    then obtain r where r: "built e s = [r]" by (cases e) simp_all
    with True have h: "history (step e s) = take 20 (r # history s)" by (simp add: history_step)
    show ?thesis
      using Cons.IH [of "step e s"]
        take_append_take [of 20 "rev (completions es (step e s))" "r # history s"]
      by (simp add: r h)
  qed
qed

lemma history_after_21:
  assumes "length (completions es s) = 21"
  shows "history (run es s) = rev (tl (completions es s))"
proof -
  from assms have "completions es s \<noteq> []" by auto
  then have "history (run es s) = take 20 (rev (completions es s) @ history s)"
    by (simp add: history_run)
  also have "\<dots> = take 20 (rev (completions es s))" using assms by simp
  also have "\<dots> = rev (drop 1 (completions es s))" using assms by (simp add: take_rev)
  finally show ?thesis by (simp add: drop_Suc)
qed

lemma oldest_absent_after_21:
  assumes "length (completions es s) = 21" and "distinct (completions es s)"
  shows "hd (completions es s) \<notin> set (history (run es s))"
proof -
  from assms(1) obtain r rs where c: "completions es s = r # rs" by (cases "completions es s") auto
  with assms(2) have "r \<notin> set rs" by simp
  with c history_after_21 [OF assms(1)] show ?thesis by simp
qed

lemma length_history_run:
  "length (history s) \<le> 20 \<Longrightarrow> length (history (run es s)) \<le> 20"
  by (cases "completions es s = []") (simp_all add: history_run del: take_append)

lemma newest_first_completion:
  assumes "isRunning s" "remaining s \<le> 1" "newest_first (history s)"
    and "list_all (\<lambda>r. endedAt r \<le> Finite (of_int now)) (history s)"
  shows "newest_first (history (tick now audio s))"
proof -
  let ?r = "buildSessionRecord now (totalDuration s)"
  have h: "history (tick now audio s) = take 20 (?r # history s)"
    using assms(1,2) by (simp add: tick_def complete_def historyEffect_def Let_def)
  have "newest_first (?r # history s)"
    using assms(3,4) by (simp add: newest_first_def well_formed_build endedAt_build list_all_iff)
  then have "newest_first (take 20 (?r # history s))"
    unfolding newest_first_def list_all_iff
    by (metis in_set_takeD sorted_wrt_take)
  with h show ?thesis by simp
qed


text \<open>
  Claim C4, as stated: length at most 20 and \<^verbatim>\<open>endedAt\<close> descending hold after
  the initial load and after each completion. The load does not truncate: a
  stored array of 21 well-formed entries is loaded with all 21. And a
  completion puts its record first whatever the clock reads: with an entry of
  a later \<^verbatim>\<open>endedAt\<close> already in the history, the result is not descending.
\<close>

theorem history_invariant_counterexample:
  "\<not> length (fst (loadHistory (Some [STORAGE_KEY \<mapsto> Serialized (JArr
        (replicate 21 (SessionRecord ''1715122800000'' (Finite 1715121300000) (Finite 1715122800000) (Finite 1500))))])))
      \<le> 20
   \<and> \<not> newest_first (history (tick 1715122800000 True
        ((initial (Some Map.empty))\<lparr>isRunning := True, remaining := 1,
           history := [SessionRecord ''1715130000000'' (Finite 1715128500000) (Finite 1715130000000) (Finite 1500)]\<rparr>)))"
proof -
  let ?r = "SessionRecord ''1715122800000'' (Finite 1715121300000) (Finite 1715122800000) (Finite 1500)"
  let ?ls = "[STORAGE_KEY \<mapsto> Serialized (JArr (replicate 21 ?r))]"
  have "loadHistory (Some ?ls) = (sort_by by_endedAt (replicate 21 ?r), [])"
    by (rule loadHistory_well_formed_array)
      (simp_all add: list_all_iff well_formed_iff SessionRecord_def)
  then have a: "length (fst (loadHistory (Some ?ls))) = 21" by (simp add: length_sort_by)
  have b: "\<not> newest_first (history (tick 1715122800000 True
        ((initial (Some Map.empty))\<lparr>isRunning := True, remaining := 1,
           history := [SessionRecord ''1715130000000'' (Finite 1715128500000) (Finite 1715130000000) (Finite 1500)]\<rparr>)))"
    by (simp add: tick_def complete_def historyEffect_def Let_def newest_first_def
        endedAt_build endedAt_SessionRecord)
  from a b show ?thesis by simp
qed

text \<open>
  Claim C4, amended. The initial load returns well-formed entries ordered by
  \<^verbatim>\<open>endedAt\<close> descending, no more of them than the stored array holds (so at
  most 20 when at most 20 are stored), and mounting makes them the history. After each completion the history has at
  most 20 entries, and it is still ordered by \<^verbatim>\<open>endedAt\<close> descending when it
  was before and the clock reading of the completion is not earlier than any
  \<^verbatim>\<open>endedAt\<close> in it. Events change the history only by completions, each
  prepending its record and truncating to 20: after a run the history is the
  old one if nothing completed, and otherwise the first 20 of the run's
  records, newest first, followed by the old history. After 21 completions
  the history is the 20 newest records, newest first, and the oldest record,
  when distinct from the others, is absent.
\<close>

theorem history_invariant:
  "newest_first (fst (loadHistory w))
   \<and> length (fst (loadHistory w)) \<le> length (stored_entries w)
   \<and> history (mount s) = fst (loadHistory (window s))
   \<and> (completes e s \<longrightarrow> length (history (step e s)) \<le> 20)
   \<and> (isRunning s \<and> remaining s \<le> 1 \<and> newest_first (history s)
        \<and> list_all (\<lambda>r. endedAt r \<le> Finite (of_int now)) (history s)
      \<longrightarrow> newest_first (history (tick now audio s)))
   \<and> history (run es s)
       = (if completions es s = [] then history s
          else take 20 (rev (completions es s) @ history s))
   \<and> (length (history s) \<le> 20 \<longrightarrow> length (history (run es s)) \<le> 20)
   \<and> (length (completions es s) = 21
      \<longrightarrow> history (run es s) = rev (tl (completions es s))
          \<and> (distinct (completions es s)
              \<longrightarrow> hd (completions es s) \<notin> set (history (run es s))))"
proof -
  have "completes e s \<longrightarrow> length (history (step e s)) \<le> 20"
    by (simp add: history_step del: take_append)
  then show ?thesis
    using newest_first_loadHistory [of w] length_loadHistory [of w] history_mount [of s]
      newest_first_completion [of s now audio] history_run [of es s]
      length_history_run [of s es] history_after_21 [of es s] oldest_absent_after_21 [of es s]
    by blast
qed

theorem history_invariant_witness:
  "completes (Tick 1715130000000 True)
     ((initial (Some Map.empty))\<lparr>isRunning := True, remaining := 1,
        history := [SessionRecord ''1715122800000'' (Finite 1715121300000) (Finite 1715122800000) (Finite 1500)]\<rparr>)
   \<and> newest_first [SessionRecord ''1715122800000'' (Finite 1715121300000) (Finite 1715122800000) (Finite 1500)]
   \<and> list_all (\<lambda>r. endedAt r \<le> Finite 1715130000000)
       [SessionRecord ''1715122800000'' (Finite 1715121300000) (Finite 1715122800000) (Finite 1500)]
   \<and> newest_first (history (tick 1715130000000 True
       ((initial (Some Map.empty))\<lparr>isRunning := True, remaining := 1,
          history := [SessionRecord ''1715122800000'' (Finite 1715121300000) (Finite 1715122800000) (Finite 1500)]\<rparr>)))
   \<and> length (history (step (Tick 1715130000000 True)
       ((initial (Some Map.empty))\<lparr>isRunning := True, remaining := 1,
          history := [SessionRecord ''1715122800000'' (Finite 1715121300000) (Finite 1715122800000) (Finite 1500)]\<rparr>))) \<le> 20
   \<and> length (completions example_run (handleDurationChange 1 (initial (Some Map.empty)))) = 21
   \<and> distinct (completions example_run (handleDurationChange 1 (initial (Some Map.empty))))
   \<and> length (history (run example_run (handleDurationChange 1 (initial (Some Map.empty))))) = 20
   \<and> buildSessionRecord 1715122801000 1
       \<notin> set (history (run example_run (handleDurationChange 1 (initial (Some Map.empty)))))"
proof -
  let ?r = "SessionRecord ''1715122800000'' (Finite 1715121300000) (Finite 1715122800000) (Finite 1500)"
  let ?s = "(initial (Some Map.empty))\<lparr>isRunning := True, remaining := 1, history := [?r]\<rparr>"
  let ?es = "example_run"
  let ?init = "handleDurationChange 1 (initial (Some Map.empty))"
  note ev = example_run_def handleDurationChange_def initial_def handleStart_def tick_def
    complete_def historyEffect_def Let_def persistHistory_def
  have h1: "completes (Tick 1715130000000 True) ?s" by simp
  have h2: "isRunning ?s \<and> remaining ?s \<le> 1" by simp
  have h3: "newest_first [?r]" by (simp add: newest_first_def well_formed_SessionRecord)
  have h4: "list_all (\<lambda>r. endedAt r \<le> Finite 1715130000000) [?r]"
    by (simp add: endedAt_SessionRecord)
  have h5: "length (completions ?es ?init) = 21" by (simp add: ev)
  have h6: "distinct (completions ?es ?init)" by (simp add: ev buildSessionRecord_eq)
  have h7: "hd (completions ?es ?init) = buildSessionRecord 1715122801000 1" by (simp add: ev)
  note t1 = history_invariant [of None ?s "Tick 1715130000000 True" 1715130000000 True "[]"]
  note t2 = history_invariant [of None ?init Start 0 True ?es]
  note bounded = t1 [THEN conjunct2, THEN conjunct2, THEN conjunct2, THEN conjunct1]
  note ordered = t1 [THEN conjunct2, THEN conjunct2, THEN conjunct2, THEN conjunct2, THEN conjunct1]
  from ordered h2 h3 h4 have a1: "newest_first (history (tick 1715130000000 True ?s))"
    by simp
  from bounded h1 have a2: "length (history (step (Tick 1715130000000 True) ?s)) \<le> 20"
    by blast
  note a = a1 a2
  note g = t2 [THEN conjunct2, THEN conjunct2, THEN conjunct2, THEN conjunct2,
      THEN conjunct2, THEN conjunct2, THEN conjunct2]
  from g h5 h6 have b: "history (run ?es ?init) = rev (tl (completions ?es ?init))"
    "hd (completions ?es ?init) \<notin> set (history (run ?es ?init))"
    by blast+
  from b(1) h5 have c: "length (history (run ?es ?init)) = 20" by simp
  from b(2) h7 have d: "buildSessionRecord 1715122801000 1 \<notin> set (history (run ?es ?init))"
    by simp
  from h1 h3 h4 a h5 h6 c d show ?thesis by blast
qed

end
